theory Spec2Isabelle
  imports Main "HOL-Library.Word"
begin

section \<open>JavaScript strings and thrown values\<close>

text \<open>
  Strings are lists of characters. \<open>startsWith\<close> and \<open>str_includes\<close> are
  \<open>String.prototype.startsWith\<close> and \<open>String.prototype.includes\<close> (from position 0).
\<close>

fun startsWith :: "string \<Rightarrow> string \<Rightarrow> bool" where
  "startsWith s [] = True"
| "startsWith [] (p # ps) = False"
| "startsWith (c # cs) (p # ps) = (c = p \<and> startsWith cs ps)"

fun str_includes :: "string \<Rightarrow> string \<Rightarrow> bool" where
  "str_includes [] pat = (pat = [])"
| "str_includes (c # cs) pat = (startsWith (c # cs) pat \<or> str_includes cs pat)"

text \<open>
  A thrown \<open>Error\<close>: only its \<open>message\<close> is ever read; \<open>None\<close> is a value without one
  (\<open>error.message\<close> is \<open>undefined\<close>).
\<close>

record js_error =
  message :: "string option"

text \<open>\<open>error.message?.includes(marker)\<close>: \<open>undefined\<close> (falsy) without a message.\<close>

definition message_includes :: "js_error \<Rightarrow> string \<Rightarrow> bool" where
  "message_includes error marker =
     (case message error of None \<Rightarrow> False | Some m \<Rightarrow> str_includes m marker)"

section \<open>withRetry (options.js 109-128)\<close>

text \<open>
  The wrapped \<open>fn\<close> is an effectful closure: it is a function of the world \<open>'s\<close> it runs
  in, returning the value it resolves with (\<open>Inr\<close>) or the error it throws (\<open>Inl\<close>) and the
  world it leaves. A run records the number of times \<open>fn\<close> was invoked and the delays
  passed to \<open>setTimeout\<close>, in order.
\<close>

record 's retry_run =
  world :: 's
  invocations :: nat
  waits :: "nat list"

text \<open>The test of line 117: "Don't retry on auth or validation errors".\<close>

definition non_retryable :: "js_error \<Rightarrow> bool" where
  "non_retryable error =
     (message_includes error ''unauthorized'' \<or> message_includes error ''Invalid'')"

text \<open>
  The \<open>for\<close> loop from a given \<open>attempt\<close>. The result is \<open>Inr\<close> the value \<open>fn\<close> resolved
  with, or \<open>Inl\<close> the thrown value: \<open>Some error\<close>, or \<open>None\<close> for \<open>throw lastError\<close> with
  \<open>lastError\<close> still \<open>undefined\<close>. Inside the loop \<open>attempt < maxRetries\<close>, so
  \<open>attempt < maxRetries - 1\<close> is \<open>attempt + 1 < maxRetries\<close>.
\<close>

function withRetry_from ::
  "('s \<Rightarrow> (js_error + 'a) \<times> 's) \<Rightarrow> nat \<Rightarrow> nat \<Rightarrow> nat \<Rightarrow> js_error option \<Rightarrow> 's retry_run
     \<Rightarrow> (js_error option + 'a) \<times> 's retry_run" where
  "withRetry_from fn maxRetries baseDelayMs attempt lastError r =
     (if attempt < maxRetries then
        (case fn (world r) of
           (Inr v, w) \<Rightarrow> (Inr v, r\<lparr>world := w, invocations := invocations r + 1\<rparr>)
         | (Inl error, w) \<Rightarrow>
             (let r1 = r\<lparr>world := w, invocations := invocations r + 1\<rparr> in
              if non_retryable error then (Inl (Some error), r1)
              else
                withRetry_from fn maxRetries baseDelayMs (attempt + 1) (Some error)
                  (if attempt + 1 < maxRetries
                   then r1\<lparr>waits := waits r1 @ [baseDelayMs * 2 ^ attempt]\<rparr>
                   else r1)))
      else (Inl lastError, r))"
  by pat_completeness auto
termination
  by (relation "measure (\<lambda>(fn, maxRetries, baseDelayMs, attempt, lastError, r). maxRetries - attempt)")
     auto

declare withRetry_from.simps [simp del]

definition withRetry ::
  "('s \<Rightarrow> (js_error + 'a) \<times> 's) \<Rightarrow> nat \<Rightarrow> nat \<Rightarrow> 's
     \<Rightarrow> (js_error option + 'a) \<times> 's retry_run" where
  "withRetry fn maxRetries baseDelayMs s =
     withRetry_from fn maxRetries baseDelayMs 0 None
       \<lparr>world = s, invocations = 0, waits = []\<rparr>"

section \<open>More of the JavaScript string library\<close>

text \<open>
  \<open>a || b\<close> on values that are strings or \<open>undefined\<close>: a value is truthy when it is a
  non-empty string.
\<close>

definition truthy :: "string option \<Rightarrow> bool" where
  "truthy v = (case v of None \<Rightarrow> False | Some x \<Rightarrow> x \<noteq> [])"

definition or_else :: "string option \<Rightarrow> string option \<Rightarrow> string option" where
  "or_else a b = (if truthy a then a else b)"

definition or_default :: "string option \<Rightarrow> string \<Rightarrow> string" where
  "or_default a d = (case a of None \<Rightarrow> d | Some x \<Rightarrow> if x \<noteq> [] then x else d)"

text \<open>\<open>Array.prototype.join\<close> on strings, \<open>undefined\<close> elements printed as the empty string.\<close>

fun join :: "string \<Rightarrow> string list \<Rightarrow> string" where
  "join sep [] = []"
| "join sep [x] = x"
| "join sep (x # y # ys) = x @ sep @ join sep (y # ys)"

definition str_of_undefined :: "string option \<Rightarrow> string" where
  "str_of_undefined v = (case v of None \<Rightarrow> [] | Some x \<Rightarrow> x)"

text \<open>\<open>Number.prototype.toString(radix)\<close> on a non-negative integer, radix 2 to 36.\<close>

definition digit_char :: "nat \<Rightarrow> char" where
  "digit_char d = (if d < 10 then char_of (48 + d) else char_of (87 + d))"

function to_radix :: "nat \<Rightarrow> nat \<Rightarrow> string" where
  "to_radix b n =
     (if b < 2 \<or> n < b then [digit_char n] else to_radix b (n div b) @ [digit_char (n mod b)])"
  by pat_completeness auto
termination
  by (relation "measure snd") auto

declare to_radix.simps [simp del]

definition int_to_radix :: "nat \<Rightarrow> int \<Rightarrow> string" where
  "int_to_radix b v = (if v < 0 then CHR ''-'' # to_radix b (nat (- v)) else to_radix b (nat v))"

text \<open>
  \<open>String.prototype.toLowerCase\<close> and \<open>String.prototype.trim\<close> on the first 256 code
  points: the capital letters are A to Z and 192 to 222 without the multiplication sign
  215, the white space is tab, line feed, vertical tab, form feed, carriage return,
  space and no-break space. Characters here are 8-bit, so code points above 255 are
  outside the model.
\<close>

definition is_upper :: "nat \<Rightarrow> bool" where
  "is_upper n = ((65 \<le> n \<and> n \<le> 90) \<or> (192 \<le> n \<and> n \<le> 222 \<and> n \<noteq> 215))"

definition lower_char :: "char \<Rightarrow> char" where
  "lower_char c = (if is_upper (of_char c) then char_of ((of_char c :: nat) + 32) else c)"

definition toLowerCase :: "string \<Rightarrow> string" where
  "toLowerCase s = map lower_char s"

definition is_space :: "char \<Rightarrow> bool" where
  "is_space c = ((of_char c :: nat) \<in> {9, 10, 11, 12, 13, 32, 160})"

definition trim :: "string \<Rightarrow> string" where
  "trim s = rev (dropWhile is_space (rev (dropWhile is_space s)))"

text \<open>
  \<open>String.prototype.replace(pattern, replacement)\<close> with a string pattern: the first
  occurrence only.
\<close>

fun replace_first :: "string \<Rightarrow> string \<Rightarrow> string \<Rightarrow> string" where
  "replace_first [] pat rep = (if pat = [] then rep else [])"
| "replace_first (c # cs) pat rep =
     (if startsWith (c # cs) pat then rep @ drop (length pat) (c # cs)
      else c # replace_first cs pat rep)"

text \<open>
  \<open>s.lastIndexOf(pat, position)\<close> for a non-negative \<open>position\<close>: the largest index
  \<open>i \<le> min(position, s.length - pat.length)\<close> at which \<open>pat\<close> occurs, or \<open>-1\<close>.
\<close>

fun lastIndexOf_down :: "string \<Rightarrow> string \<Rightarrow> nat \<Rightarrow> int" where
  "lastIndexOf_down s pat 0 = (if startsWith s pat then 0 else - 1)"
| "lastIndexOf_down s pat (Suc k) =
     (if startsWith (drop (Suc k) s) pat then int (Suc k) else lastIndexOf_down s pat k)"

definition lastIndexOf :: "string \<Rightarrow> string \<Rightarrow> nat \<Rightarrow> int" where
  "lastIndexOf s pat position =
     (if length s < length pat then - 1
      else lastIndexOf_down s pat (min position (length s - length pat)))"

section \<open>RateLimiter (options.js 158-214)\<close>

text \<open>
  The limiter is driven by the event loop. Its state is the object's four fields and, to
  follow a run, the clock (\<open>Date.now()\<close>, in ms), the point at which the single
  \<open>processQueue\<close> worker is suspended, and the record of what it did: the calls it
  dispatched with the timestamp it pushed for each, the calls it rejected, and the delays
  it asked for after each dispatch.
\<close>

record queued =
  call_id :: nat
  addedAt :: int

datatype worker = Idle | AwaitTimer int | AwaitFn nat

record limiter =
  requestsPerMinute :: nat
  queue :: "queued list"
  processing :: bool
  requestTimestamps :: "int list"
  clock :: int
  worker :: worker
  next_call :: nat
  dispatched :: "(nat \<times> int) list"
  rejected :: "nat list"
  delays :: "int list"

definition new_RateLimiter :: "nat \<Rightarrow> int \<Rightarrow> limiter" where
  "new_RateLimiter rpm t0 =
     \<lparr>requestsPerMinute = rpm, queue = [], processing = False, requestTimestamps = [],
      clock = t0, worker = Idle, next_call = 0, dispatched = [], rejected = [], delays = []\<rparr>"

text \<open>Line 208: the "adaptive delay based on queue size", read after \<open>fn\<close> has settled.\<close>

definition adaptive_delay :: "limiter \<Rightarrow> int" where
  "adaptive_delay s = (if length (queue s) > 50 then 200 else 500)"

text \<open>
  Lines 191-192. \<open>Math.min\<close> of no arguments is \<open>Infinity\<close>, which makes \<open>waitTime\<close>
  infinite; \<open>setTimeout\<close> turns a non-finite delay into 0.
\<close>

definition waitTime :: "int \<Rightarrow> int list \<Rightarrow> int" where
  "waitTime now ts =
     (case ts of [] \<Rightarrow> 0
      | t # ts' \<Rightarrow> 60000 - (now - fold min ts' t) + 100)"

text \<open>
  The \<open>while\<close> loop of \<open>processQueue\<close> from its head to the next \<open>await\<close> (or to its
  end). This stretch runs without yielding; \<open>now\<close> is the clock when it starts and
  \<open>skew\<close> is what the clock has advanced by when line 198 reads \<open>Date.now()\<close> again.
\<close>

function processQueue_loop :: "nat \<Rightarrow> limiter \<Rightarrow> limiter" where
  "processQueue_loop skew s =
     (case queue s of
        [] \<Rightarrow> s\<lparr>processing := False, worker := Idle\<rparr>
      | item # rest \<Rightarrow>
          (let now = clock s in
           if now - addedAt item > 5 * 60 * 1000 then
             processQueue_loop skew (s\<lparr>queue := rest, rejected := rejected s @ [call_id item]\<rparr>)
           else
             (let ts = filter (\<lambda>t. now - t < 60000) (requestTimestamps s) in
              if length ts \<ge> requestsPerMinute s then
                s\<lparr>requestTimestamps := ts, worker := AwaitTimer (now + waitTime now ts)\<rparr>
              else
                s\<lparr>queue := rest,
                  requestTimestamps := ts @ [now + int skew],
                  clock := now + int skew,
                  dispatched := dispatched s @ [(call_id item, now + int skew)],
                  worker := AwaitFn (call_id item)\<rparr>)))"
  by pat_completeness auto
termination
  by (relation "measure (\<lambda>(skew, s). length (queue s))") auto

declare processQueue_loop.simps [simp del]

text \<open>
  What can happen to a limiter:
  \<^item> \<open>Submit\<close>: \<open>throttle(fn)\<close> is called; it pushes the call and calls \<open>processQueue\<close>,
    which returns at once when the worker is already running;
  \<^item> \<open>Elapse d\<close>: \<open>d\<close> ms pass (the clock does not go back);
  \<^item> \<open>TimerFires\<close>: the worker's pending \<open>setTimeout\<close> fires, which it can only do once
    the clock has reached its deadline; the worker then goes back to the loop head
    (after a wait by \<open>continue\<close>, after the adaptive delay by the end of the body);
  \<^item> \<open>FnSettles\<close>: the dispatched \<open>fn\<close> resolves or rejects, and the worker starts the
    adaptive delay.
\<close>

datatype event = Submit nat | Elapse nat | TimerFires nat | FnSettles

fun step :: "event \<Rightarrow> limiter \<Rightarrow> limiter" where
  "step (Submit skew) s =
     (let s1 = s\<lparr>queue := queue s @ [\<lparr>call_id = next_call s, addedAt = clock s\<rparr>],
                 next_call := next_call s + 1\<rparr>
      in if processing s1 \<or> length (queue s1) = 0 then s1
         else processQueue_loop skew (s1\<lparr>processing := True\<rparr>))"
| "step (Elapse d) s = s\<lparr>clock := clock s + int d\<rparr>"
| "step (TimerFires skew) s =
     (case worker s of
        AwaitTimer deadline \<Rightarrow> if deadline \<le> clock s then processQueue_loop skew s else s
      | _ \<Rightarrow> s)"
| "step FnSettles s =
     (case worker s of
        AwaitFn i \<Rightarrow>
          s\<lparr>worker := AwaitTimer (clock s + adaptive_delay s),
            delays := delays s @ [adaptive_delay s]\<rparr>
      | _ \<Rightarrow> s)"

definition run :: "event list \<Rightarrow> limiter \<Rightarrow> limiter" where
  "run evs s = fold step evs s"

text \<open>The number of dispatches in the trailing 60-second window that ends at time \<open>T\<close>.\<close>

definition dispatches_in_window :: "int \<Rightarrow> (nat \<times> int) list \<Rightarrow> nat" where
  "dispatches_in_window T trace = length (filter (\<lambda>t. T - 60000 < t \<and> t \<le> T) (map snd trace))"

section \<open>ExportProgressManager (options.js 221-254)\<close>

text \<open>
  \<open>chrome.storage.local\<close> as the list of its items, in the order \<open>Object.keys\<close>
  enumerates them. An item is a job's progress record or something else (the
  fingerprints, the failure list, settings).
\<close>

record progress =
  current :: nat
  total :: nat
  job_success :: nat
  job_failed :: nat
  job_uuids :: "string list"
  lastUpdate :: int

datatype stored_value = Progress progress | Other

type_synonym storage = "(string \<times> stored_value) list"

fun storage_set :: "string \<Rightarrow> stored_value \<Rightarrow> storage \<Rightarrow> storage" where
  "storage_set k v [] = [(k, v)]"
| "storage_set k v ((k', v') # rest) =
     (if k' = k then (k, v) # rest else (k', v') # storage_set k v rest)"

definition storage_remove :: "string \<Rightarrow> storage \<Rightarrow> storage" where
  "storage_remove k st = filter (\<lambda>(k', v). k' \<noteq> k) st"

definition saveProgress :: "int \<Rightarrow> string \<Rightarrow> progress \<Rightarrow> storage \<Rightarrow> storage" where
  "saveProgress now jobId p st =
     storage_set (''export_progress_'' @ jobId) (Progress (p\<lparr>lastUpdate := now\<rparr>)) st"

definition clearProgress :: "string \<Rightarrow> storage \<Rightarrow> storage" where
  "clearProgress jobId st = storage_remove (''export_progress_'' @ jobId) st"

text \<open>
  The test of line 247 on one stored item. \<open>Other\<close> under a progress key is an object
  that is not a progress record: it has no \<open>lastUpdate\<close>, and the comparison with
  \<open>NaN\<close> is false. \<open>saveProgress\<close>, the only writer of these keys, stores objects, so
  a stored \<open>null\<close>, on which line 247 would throw, is not part of the model.
\<close>

definition resumable :: "int \<Rightarrow> string \<times> stored_value \<Rightarrow> bool" where
  "resumable now kv =
     (startsWith (fst kv) ''export_progress_'' \<and>
      (case snd kv of
         Progress p \<Rightarrow> now - lastUpdate p < 60 * 60 * 1000 \<and> current p < total p
       | Other \<Rightarrow> False))"

fun getActiveJob :: "int \<Rightarrow> storage \<Rightarrow> (string \<times> progress) option" where
  "getActiveJob now [] = None"
| "getActiveJob now ((key, v) # rest) =
     (if startsWith key ''export_progress_'' then
        (case v of
           Progress p \<Rightarrow>
             if now - lastUpdate p < 60 * 60 * 1000 \<and> current p < total p
             then Some (replace_first key ''export_progress_'' [], p)
             else getActiveJob now rest
         | Other \<Rightarrow> getActiveJob now rest)
      else getActiveJob now rest)"

section \<open>DataValidator (options.js 259-364)\<close>

record markdown_block =
  md_answer :: "string option"
  md_chunks :: "string list option"

record web_result_block =
  web_results :: "string list option"

record block =
  intended_usage :: "string option"
  markdown_block :: "markdown_block option"
  web_result_block :: "web_result_block option"

record entry =
  query :: "string option"
  query_str :: "string option"
  blocks :: "block list option"
  answer :: "string option"
  entry_text :: "string option"

text \<open>The extracted thread: \<open>entries\<close> is \<open>data.detail?.entries\<close>.\<close>

record thread_data =
  uuid :: "string option"
  title :: "string option"
  entries :: "entry list option"

definition entries_of :: "thread_data \<Rightarrow> entry list" where
  "entries_of data = (case entries data of None \<Rightarrow> [] | Some es \<Rightarrow> es)"

text \<open>Lines 296 and 303-321: what the \<open>forEach\<close> callback computes for one entry.\<close>

definition hasQuestion :: "entry \<Rightarrow> bool" where
  "hasQuestion e = (truthy (query e) \<or> truthy (query_str e))"

definition hasTextBlock :: "entry \<Rightarrow> bool" where
  "hasTextBlock e =
     (case blocks e of
        None \<Rightarrow> False
      | Some bs \<Rightarrow>
          list_ex (\<lambda>b. intended_usage b = Some ''ask_text'' \<and>
                       (case markdown_block b of
                          None \<Rightarrow> False
                        | Some m \<Rightarrow> truthy (md_answer m) \<or> md_chunks m \<noteq> None)) bs)"

definition hasAnswer :: "entry \<Rightarrow> bool" where
  "hasAnswer e = (hasTextBlock e \<or> truthy (answer e) \<or> truthy (entry_text e))"

record tally =
  contentScore :: nat
  emptyEntries :: nat
  totalQuestions :: nat
  totalAnswers :: nat

definition tally_entry :: "entry \<Rightarrow> tally \<Rightarrow> tally" where
  "tally_entry e t =
     (let t1 = (if hasQuestion e
                then t\<lparr>totalQuestions := totalQuestions t + 1, contentScore := contentScore t + 10\<rparr>
                else t);
          t2 = (if hasTextBlock e
                then t1\<lparr>totalAnswers := totalAnswers t1 + 1, contentScore := contentScore t1 + 15\<rparr>
                else t1);
          t3 = (if \<not> hasTextBlock e \<and> (truthy (answer e) \<or> truthy (entry_text e))
                then t2\<lparr>totalAnswers := totalAnswers t2 + 1, contentScore := contentScore t2 + 15\<rparr>
                else t2)
      in if \<not> hasAnswer e then t3\<lparr>emptyEntries := emptyEntries t3 + 1\<rparr> else t3)"

record stats =
  stats_totalEntries :: nat
  stats_emptyEntries :: nat
  stats_totalQuestions :: nat
  stats_totalAnswers :: nat
  stats_hasUuid :: bool
  stats_hasTitle :: bool

record validation =
  valid :: bool
  errors :: "string list"
  warnings :: "string list"
  completeness :: nat
  stats :: "stats option"

definition hasSources :: "entry list \<Rightarrow> bool" where
  "hasSources es =
     list_ex (\<lambda>e. case blocks e of
                     None \<Rightarrow> False
                   | Some bs \<Rightarrow>
                       list_ex (\<lambda>b. intended_usage b = Some ''web_results'' \<and>
                                    (case web_result_block b of
                                       None \<Rightarrow> False
                                     | Some w \<Rightarrow>
                                         (case web_results w of
                                            None \<Rightarrow> False
                                          | Some rs \<Rightarrow> length rs > 0))) bs) es"

text \<open>
  \<open>validateThreadData(data, platform)\<close>; \<open>None\<close> is a \<open>data\<close> that is \<open>null\<close>,
  \<open>undefined\<close> or not an object. \<open>emptyEntries > entries.length * 0.5\<close> is
  \<open>2 * emptyEntries > entries.length\<close>. \<open>Math.round(contentScore / maxScore * 100)\<close> is
  taken in exact arithmetic, rounding a half up; the floating-point product of line 330
  can fall just below a half where the exact value is a half (115 of 200 gives 57 there
  and 58 here), so \<open>completeness\<close> is the code's value up to one. Nothing below reads
  \<open>completeness\<close>.
\<close>

definition validateThreadData :: "thread_data option \<Rightarrow> string \<Rightarrow> validation" where
  "validateThreadData data_opt platform =
     (case data_opt of
        None \<Rightarrow>
          \<lparr>valid = False, errors = [''Invalid data structure''], warnings = [],
           completeness = 0, stats = None\<rparr>
      | Some data \<Rightarrow>
          (let warnings1 =
                 (if \<not> truthy (title data) \<or> trim (str_of_undefined (title data)) = []
                       \<or> title data = Some ''Untitled''
                  then [''Thread has no meaningful title''] else []);
               errors1 = (if \<not> truthy (uuid data) then [''Missing thread UUID''] else []);
               es = entries_of data;
               errors2 = (if length es = 0
                          then errors1 @ [''No conversation entries found''] else errors1);
               t = fold tally_entry es
                     \<lparr>contentScore = 0, emptyEntries = 0, totalQuestions = 0, totalAnswers = 0\<rparr>;
               maxScore = length es * 25;
               completeness1 =
                 (if maxScore > 0 then (200 * contentScore t + maxScore) div (2 * maxScore)
                  else 0);
               errors3 =
                 (if 2 * emptyEntries t > length es \<and> length es > 0
                  then errors2 @ [''More than 50% of entries empty ('' @
                                  to_radix 10 (emptyEntries t) @ ''/'' @
                                  to_radix 10 (length es) @ '')'']
                  else errors2);
               warnings2 =
                 (if platform = ''Perplexity'' \<and> \<not> hasSources es \<and> length es > 0
                  then warnings1 @ [''No sources found (unusual for Perplexity)'']
                  else warnings1)
           in \<lparr>valid = (length errors3 = 0), errors = errors3, warnings = warnings2,
               completeness = completeness1,
               stats = Some \<lparr>stats_totalEntries = length es,
                             stats_emptyEntries = emptyEntries t,
                             stats_totalQuestions = totalQuestions t,
                             stats_totalAnswers = totalAnswers t,
                             stats_hasUuid = truthy (uuid data),
                             stats_hasTitle = (truthy (title data) \<and> title data \<noteq> Some ''Untitled'')\<rparr>\<rparr>))"

section \<open>DuplicateDetector (options.js 480-527)\<close>

text \<open>
  \<open>simpleHash\<close>: \<open>hash = ((hash << 5) - hash) + char; hash = hash & hash\<close> keeps the low
  32 bits, read as a signed integer, and \<open>toString(36)\<close> prints it.
\<close>

definition simpleHash :: "string \<Rightarrow> string" where
  "simpleHash str =
     int_to_radix 36
       (sint (fold (\<lambda>c hash. (push_bit 5 hash - hash) + of_char c) str (0 :: 32 word)))"

definition first_query :: "entry list \<Rightarrow> string" where
  "first_query es =
     (case es of [] \<Rightarrow> [] | e # _ \<Rightarrow> or_default (or_else (query e) (query_str e)) [])"

definition last_query :: "entry list \<Rightarrow> string" where
  "last_query es =
     (case rev es of [] \<Rightarrow> [] | e # _ \<Rightarrow> or_default (or_else (query e) (query_str e)) [])"

definition generateFingerprint :: "thread_data \<Rightarrow> string" where
  "generateFingerprint data =
     simpleHash
       (join ''|'' [str_of_undefined (uuid data), str_of_undefined (title data),
                    to_radix 10 (length (entries_of data)),
                    first_query (entries_of data), last_query (entries_of data)])"

text \<open>
  \<open>hasChanged\<close> and \<open>saveFingerprint\<close> on the stored \<open>exportFingerprints\<close> object:
  \<open>!oldFingerprint || oldFingerprint !== newFingerprint\<close>.
\<close>

definition hasChanged :: "(string \<rightharpoonup> string) \<Rightarrow> string \<Rightarrow> string \<Rightarrow> bool" where
  "hasChanged exportFingerprints u newFingerprint =
     (case exportFingerprints u of
        None \<Rightarrow> True
      | Some oldFingerprint \<Rightarrow> oldFingerprint = [] \<or> oldFingerprint \<noteq> newFingerprint)"

definition saveFingerprint :: "(string \<rightharpoonup> string) \<Rightarrow> string \<Rightarrow> string \<Rightarrow> (string \<rightharpoonup> string)" where
  "saveFingerprint exportFingerprints u fingerprint = exportFingerprints(u \<mapsto> fingerprint)"

section \<open>ErrorRecovery (options.js 532-563)\<close>

datatype error_type = RATE_LIMIT | AUTH_ERROR | NETWORK_ERROR | DATA_ERROR | UNKNOWN

definition classifyError :: "js_error \<Rightarrow> error_type" where
  "classifyError error =
     (let msg = toLowerCase (or_default (message error) []) in
      if str_includes msg ''rate'' \<or> str_includes msg ''429'' then RATE_LIMIT
      else if str_includes msg ''unauthorized'' \<or> str_includes msg ''401'' then AUTH_ERROR
      else if str_includes msg ''network'' \<or> str_includes msg ''fetch'' then NETWORK_ERROR
      else if str_includes msg ''validation'' \<or> str_includes msg ''invalid'' then DATA_ERROR
      else UNKNOWN)"

record recovery =
  retry :: bool
  delay :: "nat option"
  waitForOnline :: bool
  userAction :: "string option"
  skip :: bool
  recovery_message :: "string option"

text \<open>\<open>handleExportError\<close>; \<open>onLine\<close> is \<open>navigator.onLine\<close> when it is called.\<close>

definition handleExportError :: "bool \<Rightarrow> js_error \<Rightarrow> recovery" where
  "handleExportError onLine error =
     (case classifyError error of
        RATE_LIMIT \<Rightarrow>
          \<lparr>retry = True, delay = Some 60000, waitForOnline = False, userAction = None,
           skip = False, recovery_message = Some ''Rate limited. Waiting 60s...''\<rparr>
      | AUTH_ERROR \<Rightarrow>
          \<lparr>retry = False, delay = None, waitForOnline = False, userAction = Some ''relogin'',
           skip = False, recovery_message = Some ''Please re-login to the platform''\<rparr>
      | NETWORK_ERROR \<Rightarrow>
          (if \<not> onLine then
             \<lparr>retry = True, delay = None, waitForOnline = True, userAction = None,
              skip = False, recovery_message = Some ''Waiting for internet...''\<rparr>
           else
             \<lparr>retry = True, delay = Some 5000, waitForOnline = False, userAction = None,
              skip = False, recovery_message = Some ''Network error. Retrying...''\<rparr>)
      | DATA_ERROR \<Rightarrow>
          \<lparr>retry = False, delay = None, waitForOnline = False, userAction = None,
           skip = True, recovery_message = Some ''Invalid data, skipping''\<rparr>
      | UNKNOWN \<Rightarrow>
          \<lparr>retry = False, delay = None, waitForOnline = False, userAction = None,
           skip = False, recovery_message = message error\<rparr>)"

section \<open>syncSingleThread (options.js 1811-1879)\<close>

datatype sync_status = Syncing | Synced | Skipped | Failed

record failure =
  failure_uuid :: string
  failure_reason :: "string option"
  failure_title :: string

record thread =
  thread_uuid :: string
  thread_title :: "string option"

text \<open>
  The state the orchestrator reads and writes: the module's \<open>syncStatusMap\<close> and
  \<open>exportedUuids\<close>, the stored \<open>exportFingerprints\<close> and \<open>failures\<close>, the rest of the
  store, and, to follow a run, the delays it waited for, the number of times the body
  of \<open>syncSingleThread\<close> was entered and the number of times \<open>syncToNotion\<close> was called
  (\<open>syncToNotion\<close> is the only way from here to the Notion API).
\<close>

record app =
  syncStatusMap :: "string \<rightharpoonup> sync_status"
  exportFingerprints :: "string \<rightharpoonup> string"
  failures :: "failure list"
  exportedUuids :: "string set"
  store :: storage
  timers :: "nat list"
  pipeline_runs :: nat
  syncToNotion_calls :: nat
  export_jobs :: "(nat \<times> nat \<times> nat) list"

text \<open>
  What the outside world answers during one run of the pipeline: \<open>getAITab()\<close>, the
  \<open>response.data\<close> that \<open>sendMessageWithTimeout\<close> resolves with (or the error it rejects
  with), the outcome of \<open>syncToNotion\<close> (\<open>None\<close> when it resolves) and \<open>navigator.onLine\<close>.
  The environment gives these answers for the first run, the second run, and so on, the
  page's \<open>currentPlatform\<close>, and the clock read after a given number of runs.
\<close>

datatype tab_result = TabThrows js_error | NoTab | TabFound

record attempt =
  tab :: tab_result
  extraction :: "js_error + thread_data option"
  notion :: "js_error option"
  onLine :: bool

record environment =
  currentPlatform :: string
  attempt_at :: "nat \<Rightarrow> attempt"
  date_now :: "nat \<Rightarrow> int"

text \<open>\<open>reportFailure\<close>: newest first, the last 50 kept (the time stamp is left out).\<close>

definition reportFailure :: "string \<Rightarrow> string option \<Rightarrow> string option \<Rightarrow> app \<Rightarrow> app" where
  "reportFailure u reason title_opt s =
     s\<lparr>failures :=
         take 50 (\<lparr>failure_uuid = u, failure_reason = reason,
                   failure_title = (case title_opt of None \<Rightarrow> ''Unknown'' | Some t \<Rightarrow> t)\<rparr>
                  # failures s)\<rparr>"

definition mark :: "string \<Rightarrow> sync_status \<Rightarrow> app \<Rightarrow> app" where
  "mark u status s = s\<lparr>syncStatusMap := (syncStatusMap s)(u \<mapsto> status)\<rparr>"

text \<open>
  The inner \<open>try\<close> block, lines 1823-1860: \<open>Inr\<close> the state when it completes or returns,
  \<open>Inl\<close> the error and the state when it throws. The calls of \<open>log\<close> and
  \<open>console.log\<close> write to the page only and are left out. A \<open>response.data\<close> that is
  not an object is never valid, so the second \<open>None\<close> branch is never taken.
\<close>

definition sync_attempt ::
  "string \<Rightarrow> attempt \<Rightarrow> thread \<Rightarrow> bool \<Rightarrow> app \<Rightarrow> (js_error \<times> app) + app" where
  "sync_attempt platform a thread forceReExport s =
     (case extraction a of
        Inl msgError \<Rightarrow> Inl (msgError, s)
      | Inr data_opt \<Rightarrow>
          (let validation = validateThreadData data_opt platform in
           if \<not> valid validation then
             Inr (reportFailure (thread_uuid thread)
                    (Some (''Validation failed: '' @ join '', '' (errors validation)))
                    (thread_title thread)
                    (mark (thread_uuid thread) Failed s))
           else
             (case data_opt of
                None \<Rightarrow>
                  Inr (reportFailure (thread_uuid thread)
                         (Some (''Validation failed: '' @ join '', '' (errors validation)))
                         (thread_title thread)
                         (mark (thread_uuid thread) Failed s))
              | Some data \<Rightarrow>
                  (let fingerprint = generateFingerprint data;
                       changed = hasChanged (exportFingerprints s) (thread_uuid thread) fingerprint
                   in
                   if \<not> changed \<and> \<not> forceReExport then
                     Inr (mark (thread_uuid thread) Skipped s)
                   else
                     (let s1 = s\<lparr>syncToNotion_calls := syncToNotion_calls s + 1\<rparr> in
                      case notion a of
                        Some err \<Rightarrow> Inl (err, s1)
                      | None \<Rightarrow>
                          (let s2 = s1\<lparr>exportFingerprints :=
                                         saveFingerprint (exportFingerprints s1)
                                           (thread_uuid thread) fingerprint\<rparr>;
                               s3 = mark (thread_uuid thread) Synced s2
                           in Inr (s3\<lparr>exportedUuids :=
                                        insert (thread_uuid thread) (exportedUuids s3)\<rparr>)))))))"

text \<open>\<open>recovery.retry && recovery.delay\<close>: a delay that is present and not 0.\<close>

definition retry_with_delay :: "recovery \<Rightarrow> bool" where
  "retry_with_delay r = (retry r \<and> (case delay r of None \<Rightarrow> False | Some d \<Rightarrow> d \<noteq> 0))"

text \<open>
  \<open>syncSingleThread\<close> calls itself after a retryable failure, with no count of the
  retries, so the recursion is on fuel: \<open>None\<close> is a run that has not returned within
  \<open>fuel\<close> runs of the pipeline.
\<close>

fun syncSingleThread ::
  "nat \<Rightarrow> environment \<Rightarrow> thread \<Rightarrow> bool \<Rightarrow> app \<Rightarrow> app option" where
  "syncSingleThread 0 env thread forceReExport s = None"
| "syncSingleThread (Suc fuel) env thread forceReExport s =
     (let a = attempt_at env (pipeline_runs s);
          s0 = mark (thread_uuid thread) Syncing (s\<lparr>pipeline_runs := pipeline_runs s + 1\<rparr>)
      in
      case tab a of
        TabThrows e \<Rightarrow>
          Some (reportFailure (thread_uuid thread) (message e) (thread_title thread)
                  (mark (thread_uuid thread) Failed s0))
      | NoTab \<Rightarrow>
          Some (reportFailure (thread_uuid thread) (Some ''No AI platform tab found'')
                  (thread_title thread) (mark (thread_uuid thread) Failed s0))
      | TabFound \<Rightarrow>
          (case sync_attempt (currentPlatform env) a thread forceReExport s0 of
             Inr s1 \<Rightarrow> Some s1
           | Inl (msgError, s1) \<Rightarrow>
               (let recovery = handleExportError (onLine a) msgError in
                if retry_with_delay recovery then
                  syncSingleThread fuel env thread forceReExport
                    (s1\<lparr>timers := timers s1 @ [the (delay recovery)]\<rparr>)
                else
                  Some (reportFailure (thread_uuid thread)
                          (or_else (recovery_message recovery) (message msgError))
                          (thread_title thread)
                          (mark (thread_uuid thread) Failed s1)))))"

section \<open>bulkSyncToNotion (options.js 1907-1976)\<close>

text \<open>
  Lines 1933-1953, the body of \<open>if (thread)\<close> for the item at index \<open>i\<close>: the sync, the
  two counters, the checkpoint of every fifth index and the 800 ms pause.
  \<open>syncSingleThread\<close> catches everything it raises, so the \<open>catch\<close> of line 1937 is
  never entered. The variable \<open>total\<close> of the source is \<open>n_total\<close> here.
\<close>

definition bulk_item ::
  "nat \<Rightarrow> environment \<Rightarrow> string \<Rightarrow> string list \<Rightarrow> nat \<Rightarrow> nat \<Rightarrow> thread
     \<Rightarrow> nat \<Rightarrow> nat \<Rightarrow> app \<Rightarrow> (nat \<times> nat \<times> app) option" where
  "bulk_item fuel env jobId uuids n_total i thread success failed s =
     (case syncSingleThread fuel env thread False s of
        None \<Rightarrow> None
      | Some s1 \<Rightarrow>
          (let success1 = (if syncStatusMap s1 (thread_uuid thread) = Some Synced
                           then success + 1 else success);
               failed1 = (if syncStatusMap s1 (thread_uuid thread) = Some Synced
                          then failed else failed + 1);
               s2 = (if i mod 5 = 0
                     then s1\<lparr>store :=
                               saveProgress (date_now env (pipeline_runs s1)) jobId
                                 \<lparr>current = i, total = n_total, job_success = success1,
                                  job_failed = failed1, job_uuids = uuids, lastUpdate = 0\<rparr>
                                 (store s1)\<rparr>
                     else s1)
           in Some (success1, failed1, s2\<lparr>timers := timers s2 @ [800]\<rparr>)))"

text \<open>The \<open>for\<close> loop, from index \<open>i\<close> with the ids still to visit.\<close>

fun bulk_loop ::
  "nat \<Rightarrow> environment \<Rightarrow> thread list \<Rightarrow> string \<Rightarrow> string list \<Rightarrow> nat \<Rightarrow> nat \<Rightarrow> string list
     \<Rightarrow> nat \<Rightarrow> nat \<Rightarrow> app \<Rightarrow> (nat \<times> nat \<times> app) option" where
  "bulk_loop fuel env threadData jobId uuids n_total i [] success failed s =
     Some (success, failed, s)"
| "bulk_loop fuel env threadData jobId uuids n_total i (u # rest) success failed s =
     (case find (\<lambda>t. thread_uuid t = u) threadData of
        None \<Rightarrow> bulk_loop fuel env threadData jobId uuids n_total (i + 1) rest success failed s
      | Some thread \<Rightarrow>
          (case bulk_item fuel env jobId uuids n_total i thread success failed s of
             None \<Rightarrow> None
           | Some (success1, failed1, s1) \<Rightarrow>
               bulk_loop fuel env threadData jobId uuids n_total (i + 1) rest success1 failed1 s1))"

text \<open>
  \<open>bulkSyncToNotion\<close> on the selected ids, as the one run that \<open>reqDeduplication\<close> lets
  through; \<open>recordExportJob(total, success, failed)\<close> is kept as the triple it is called
  with, and the updates of the progress bar are left out.
\<close>

definition bulkSyncToNotion ::
  "nat \<Rightarrow> environment \<Rightarrow> thread list \<Rightarrow> string list \<Rightarrow> app \<Rightarrow> app option" where
  "bulkSyncToNotion fuel env threadData selectedThreads s =
     (let uuids = selectedThreads; n_total = length uuids in
      if n_total = 0 then Some s
      else
        (let jobId = ''job_'' @ int_to_radix 10 (date_now env (pipeline_runs s)) in
         case bulk_loop fuel env threadData jobId uuids n_total 0 uuids 0 0 s of
           None \<Rightarrow> None
         | Some (success, failed, s1) \<Rightarrow>
             Some (s1\<lparr>store := clearProgress jobId (store s1),
                      export_jobs := export_jobs s1 @ [(n_total, success, failed)]\<rparr>)))"

section \<open>splitTextIntoChunks (options.js 2218-2245)\<close>

text \<open>
  Lines 2229-2238: the break point in a \<open>remaining\<close> longer than \<open>maxLength\<close>;
  \<open>breakPoint < maxLength / 2\<close> is \<open>2 * breakPoint < maxLength\<close>.
\<close>

definition breakPoint :: "string \<Rightarrow> nat \<Rightarrow> int" where
  "breakPoint remaining maxLength =
     (let b1 = lastIndexOf remaining [CHR 0x0A] maxLength;
          b2 = (if 2 * b1 < int maxLength then lastIndexOf remaining ''. '' maxLength else b1);
          b3 = (if 2 * b2 < int maxLength then lastIndexOf remaining '' '' maxLength else b2)
      in if 2 * b3 < int maxLength then int maxLength else b3)"

text \<open>
  The \<open>while\<close> loop. \<open>slice(0, breakPoint + 1)\<close> and \<open>slice(breakPoint + 1)\<close> are
  \<open>take\<close> and \<open>drop\<close>, the break point being non-negative.
\<close>

function splitTextIntoChunks_loop :: "string \<Rightarrow> nat \<Rightarrow> string list \<Rightarrow> string list" where
  "splitTextIntoChunks_loop remaining maxLength chunks =
     (if length remaining > 0 then
        (if length remaining \<le> maxLength then chunks @ [remaining]
         else
           splitTextIntoChunks_loop
             (drop (nat (breakPoint remaining maxLength + 1)) remaining) maxLength
             (chunks @ [trim (take (nat (breakPoint remaining maxLength + 1)) remaining)]))
      else chunks)"
  by pat_completeness auto
termination
proof (relation "measure (\<lambda>(remaining, maxLength, chunks). length remaining)")
  show "wf (measure (\<lambda>(remaining, maxLength, chunks). length remaining))"
    by simp
next
  fix remaining :: string and maxLength :: nat and chunks :: "string list"
  assume "0 < length remaining"
  moreover have "0 \<le> breakPoint remaining maxLength"
    by (simp add: breakPoint_def Let_def)
  ultimately show
    "((drop (nat (breakPoint remaining maxLength + 1)) remaining, maxLength,
       chunks @ [trim (take (nat (breakPoint remaining maxLength + 1)) remaining)]),
      (remaining, maxLength, chunks))
     \<in> measure (\<lambda>(remaining, maxLength, chunks). length remaining)"
    by simp
qed

declare splitTextIntoChunks_loop.simps [simp del]

definition splitTextIntoChunks :: "string \<Rightarrow> nat \<Rightarrow> string list" where
  "splitTextIntoChunks text_in maxLength = splitTextIntoChunks_loop text_in maxLength []"

section \<open>Predicates of the statements\<close>

text \<open>
  The specification's reading of an empty entry (one with neither query nor answer) and
  of the hard failure of the validator, next to what the validator counts (entries
  without an answer).
\<close>

definition neither_query_nor_answer :: "entry \<Rightarrow> bool" where
  "neither_query_nor_answer e = (\<not> hasQuestion e \<and> \<not> hasAnswer e)"

definition count_neither :: "entry list \<Rightarrow> nat" where
  "count_neither es = length (filter neither_query_nor_answer es)"

definition count_unanswered :: "entry list \<Rightarrow> nat" where
  "count_unanswered es = length (filter (\<lambda>e. \<not> hasAnswer e) es)"

definition spec_hard_failure :: "thread_data option \<Rightarrow> bool" where
  "spec_hard_failure data_opt =
     (case data_opt of
        None \<Rightarrow> True
      | Some data \<Rightarrow>
          entries_of data = [] \<or> \<not> truthy (uuid data)
          \<or> length (entries_of data) < 2 * count_neither (entries_of data))"

text \<open>
  For the bulk job: an id is processed when \<open>threadData.find\<close> finds its thread; the
  processed ids are counted by their final status.
\<close>

definition processed :: "thread list \<Rightarrow> string \<Rightarrow> bool" where
  "processed threadData u = (find (\<lambda>t. thread_uuid t = u) threadData \<noteq> None)"

definition count_synced :: "thread list \<Rightarrow> app \<Rightarrow> string list \<Rightarrow> nat" where
  "count_synced threadData s us =
     length (filter (\<lambda>u. processed threadData u \<and> syncStatusMap s u = Some Synced) us)"

definition count_not_synced :: "thread list \<Rightarrow> app \<Rightarrow> string list \<Rightarrow> nat" where
  "count_not_synced threadData s us =
     length (filter (\<lambda>u. processed threadData u \<and> syncStatusMap s u \<noteq> Some Synced) us)"

text \<open>
  The invariant of the limiter: every dispatch lies in the past, the kept time stamps are
  the dispatches newer than a limit that is at least 60 s old, and no trailing window
  holds more dispatches than allowed.
\<close>

definition limiter_inv :: "limiter \<Rightarrow> bool" where
  "limiter_inv s =
     ((\<forall>t\<in>set (map snd (dispatched s)). t \<le> clock s)
      \<and> (\<exists>lim. lim + 60000 \<le> clock s
             \<and> requestTimestamps s = filter (\<lambda>t. lim < t) (map snd (dispatched s)))
      \<and> (\<forall>T. dispatches_in_window T (dispatched s) \<le> requestsPerMinute s))"

section \<open>Concrete inputs\<close>

text \<open>Operations for \<open>withRetry\<close> that always throw; the world counts the invocations.\<close>

definition always_timeout :: "nat \<Rightarrow> (js_error + unit) \<times> nat" where
  "always_timeout k = (Inl \<lparr>message = Some ''Request timeout''\<rparr>, k + 1)"

definition always_unauthorized :: "nat \<Rightarrow> (js_error + unit) \<times> nat" where
  "always_unauthorized k = (Inl \<lparr>message = Some ''401 unauthorized''\<rparr>, k + 1)"

definition always_http_401 :: "nat \<Rightarrow> (js_error + unit) \<times> nat" where
  "always_http_401 k = (Inl \<lparr>message = Some ''HTTP 401''\<rparr>, k + 1)"

definition always_validation_failed :: "nat \<Rightarrow> (js_error + unit) \<times> nat" where
  "always_validation_failed k =
     (Inl \<lparr>message = Some ''Validation failed: Missing thread UUID''\<rparr>, k + 1)"

text \<open>
  A limiter with one call in flight and \<open>n\<close> pending, and a run in which a third call
  meets the limit of 2.
\<close>

definition backlog :: "nat \<Rightarrow> limiter" where
  "backlog n =
     (new_RateLimiter 30 0)
       \<lparr>queue := map (\<lambda>i. \<lparr>call_id = Suc i, addedAt = 0\<rparr>) [0..<n], processing := True,
        requestTimestamps := [0], worker := AwaitFn 0, next_call := Suc n,
        dispatched := [(0, 0)]\<rparr>"

definition burst :: "event list" where
  "burst = [Submit 0, Submit 0, Submit 0, FnSettles, Elapse 500, TimerFires 0, FnSettles,
            Elapse 500, TimerFires 0, Elapse 59200, TimerFires 0]"

text \<open>Entries and threads for the validator, stored jobs for the progress manager.\<close>

definition query_only_entry :: entry where
  "query_only_entry = \<lparr>query = Some ''Q'', query_str = None, blocks = None, answer = None, entry_text = None\<rparr>"

definition query_only_thread :: thread_data where
  "query_only_thread = \<lparr>uuid = Some ''t1'', title = Some ''T'', entries = Some [query_only_entry]\<rparr>"

definition blank_entry :: entry where
  "blank_entry = \<lparr>query = None, query_str = None, blocks = None, answer = None, entry_text = None\<rparr>"

definition full_entry :: entry where
  "full_entry = \<lparr>query = Some ''Q'', query_str = None, blocks = None, answer = Some ''A'', entry_text = None\<rparr>"

definition mostly_blank_thread :: thread_data where
  "mostly_blank_thread = \<lparr>uuid = Some ''t2'', title = Some ''T'',
      entries = Some [full_entry, blank_entry, blank_entry, blank_entry]\<rparr>"

definition stored_jobs :: storage where
  "stored_jobs =
     [(''exportFingerprints'', Other),
      (''export_progress_job_1'',
       Progress \<lparr>current = 10, total = 10, job_success = 9, job_failed = 1, job_uuids = [], lastUpdate = 1000\<rparr>),
      (''export_progress_job_2'',
       Progress \<lparr>current = 10, total = 50, job_success = 9, job_failed = 1, job_uuids = [], lastUpdate = 2000\<rparr>)]"

text \<open>
  Thread \<open>t1\<close> with one answered entry, the state before anything was synced and the
  state after \<open>t1\<close> was synced once, a world that always answers with \<open>t1\<close>, a world
  that answers the first two runs with a 429, and a world that always answers with a 401.
\<close>

definition data_t1 :: thread_data where
  "data_t1 = \<lparr>uuid = Some ''t1'', title = Some ''First thread'', entries = Some [full_entry]\<rparr>"

definition thread_t1 :: thread where
  "thread_t1 = \<lparr>thread_uuid = ''t1'', thread_title = Some ''First thread''\<rparr>"

definition app0 :: app where
  "app0 = \<lparr>syncStatusMap = Map.empty, exportFingerprints = Map.empty, failures = [],
           exportedUuids = {}, store = [], timers = [], pipeline_runs = 0,
           syncToNotion_calls = 0, export_jobs = []\<rparr>"

definition app_t1_synced :: app where
  "app_t1_synced =
     app0\<lparr>syncStatusMap := [''t1'' \<mapsto> Synced],
          exportFingerprints := [''t1'' \<mapsto> generateFingerprint data_t1],
          exportedUuids := {''t1''}, pipeline_runs := 1, syncToNotion_calls := 1\<rparr>"

definition answers_t1 :: attempt where
  "answers_t1 = \<lparr>tab = TabFound, extraction = Inr (Some data_t1), notion = None, onLine = True\<rparr>"

definition answers_429 :: attempt where
  "answers_429 = \<lparr>tab = TabFound, extraction = Inl \<lparr>message = Some ''HTTP 429''\<rparr>,
                  notion = None, onLine = True\<rparr>"

definition answers_401 :: attempt where
  "answers_401 = \<lparr>tab = TabFound, extraction = Inl \<lparr>message = Some ''401 unauthorized''\<rparr>,
                  notion = None, onLine = True\<rparr>"

definition env_t1 :: environment where
  "env_t1 = \<lparr>currentPlatform = ''ChatGPT'', attempt_at = (\<lambda>k. answers_t1),
             date_now = (\<lambda>k. 1700000000000)\<rparr>"

definition env_429_twice :: environment where
  "env_429_twice = \<lparr>currentPlatform = ''ChatGPT'',
                    attempt_at = (\<lambda>k. if k < 2 then answers_429 else answers_t1),
                    date_now = (\<lambda>k. 1700000000000)\<rparr>"

definition env_401 :: environment where
  "env_401 = \<lparr>currentPlatform = ''ChatGPT'', attempt_at = (\<lambda>k. answers_401),
              date_now = (\<lambda>k. 1700000000000)\<rparr>"

section \<open>Properties of withRetry\<close>

lemma withRetry_3_unfold:
  "withRetry fn 3 b s =
    (case fn s of
       (Inr v, s1) \<Rightarrow> (Inr v, \<lparr>world = s1, invocations = 1, waits = []\<rparr>)
     | (Inl e1, s1) \<Rightarrow>
        if non_retryable e1 then (Inl (Some e1), \<lparr>world = s1, invocations = 1, waits = []\<rparr>)
        else (case fn s1 of
           (Inr v, s2) \<Rightarrow> (Inr v, \<lparr>world = s2, invocations = 2, waits = [b * 2 ^ 0]\<rparr>)
         | (Inl e2, s2) \<Rightarrow>
            if non_retryable e2 then (Inl (Some e2), \<lparr>world = s2, invocations = 2, waits = [b * 2 ^ 0]\<rparr>)
            else (case fn s2 of
               (Inr v, s3) \<Rightarrow> (Inr v, \<lparr>world = s3, invocations = 3, waits = [b * 2 ^ 0, b * 2 ^ 1]\<rparr>)
             | (Inl e3, s3) \<Rightarrow> (Inl (Some e3), \<lparr>world = s3, invocations = 3, waits = [b * 2 ^ 0, b * 2 ^ 1]\<rparr>))))"
  unfolding withRetry_def
  apply (subst withRetry_from.simps)
  apply (subst withRetry_from.simps)
  apply (subst withRetry_from.simps)
  apply (subst withRetry_from.simps)
  apply (simp split: prod.splits sum.splits add: Let_def)
  done

lemma withRetry_from_invocations:
  "invocations (snd (withRetry_from fn maxRetries b attempt lastError r))
     \<le> invocations r + (maxRetries - attempt)"
proof (induction fn maxRetries b attempt lastError r rule: withRetry_from.induct)
  case (1 fn maxRetries baseDelayMs attempt lastError r)
  show ?case
  proof (cases "attempt < maxRetries")
    case False
    then show ?thesis by (simp add: withRetry_from.simps)
  next
    case True
    obtain res w where fw: "fn (world r) = (res, w)" by (cases "fn (world r)")
    show ?thesis
    proof (cases res)
      case (Inr v)
      with True fw show ?thesis by (simp add: withRetry_from.simps [of fn maxRetries baseDelayMs attempt])
    next
      case (Inl e)
      show ?thesis
      proof (cases "non_retryable e")
        case True
        with \<open>attempt < maxRetries\<close> fw Inl show ?thesis
          by (simp add: withRetry_from.simps [of fn maxRetries baseDelayMs attempt])
      next
        case False
        from "1.IH" [OF True fw [symmetric] Inl refl False]
        have "invocations (snd (withRetry_from fn maxRetries baseDelayMs (attempt + 1) (Some e)
                (if attempt + 1 < maxRetries
                 then r\<lparr>world := w, invocations := invocations r + 1\<rparr>
                       \<lparr>waits := waits (r\<lparr>world := w, invocations := invocations r + 1\<rparr>) @ [baseDelayMs * 2 ^ attempt]\<rparr>
                 else r\<lparr>world := w, invocations := invocations r + 1\<rparr>)))
              \<le> invocations r + 1 + (maxRetries - (attempt + 1))"
          by (simp split: if_splits)
        with True fw Inl False show ?thesis
          by (auto simp add: withRetry_from.simps [of fn maxRetries baseDelayMs attempt] Let_def
                   split: if_splits)
      qed
    qed
  qed
qed

text \<open>
  Claim C7. With \<open>maxRetries = 3\<close>, whatever the operation and the base delay \<open>b\<close>:
  the operation is invoked at least once and at most 3 times; the delays waited are
  \<open>b * 2^0\<close> before the second invocation and \<open>b * 2^1\<close> before the third, and none
  after the last; and when three invocations in a row fail (the first two with errors
  that may be retried), the error of the third is the one rethrown.
\<close>

theorem withRetry_three_attempts:
  "1 \<le> invocations (snd (withRetry fn 3 b s))
   \<and> invocations (snd (withRetry fn 3 b s)) \<le> 3
   \<and> waits (snd (withRetry fn 3 b s))
       = take (invocations (snd (withRetry fn 3 b s)) - 1) [b * 2 ^ 0, b * 2 ^ 1]
   \<and> (fn s = (Inl e1, s1) \<and> \<not> non_retryable e1 \<and>
       fn s1 = (Inl e2, s2) \<and> \<not> non_retryable e2 \<and>
       fn s2 = (Inl e3, s3)
       \<longrightarrow> withRetry fn 3 b s
            = (Inl (Some e3), \<lparr>world = s3, invocations = 3, waits = [b * 2 ^ 0, b * 2 ^ 1]\<rparr>))"
  by (simp add: withRetry_3_unfold split: prod.splits sum.splits)

theorem withRetry_three_attempts_witness:
  "withRetry always_timeout 3 2000 0
     = (Inl (Some \<lparr>message = Some ''Request timeout''\<rparr>),
        \<lparr>world = 3, invocations = 3, waits = [2000, 4000]\<rparr>)"
  using withRetry_three_attempts [of always_timeout 2000 0
          "\<lparr>message = Some ''Request timeout''\<rparr>" 1
          "\<lparr>message = Some ''Request timeout''\<rparr>" 2
          "\<lparr>message = Some ''Request timeout''\<rparr>" 3]
  by (simp add: always_timeout_def non_retryable_def message_includes_def)

lemma withRetry_from_extends:
  "invocations r \<le> invocations (snd (withRetry_from fn maxRetries b attempt lastError r))
   \<and> (\<exists>more. waits (snd (withRetry_from fn maxRetries b attempt lastError r)) = waits r @ more)"
proof (induction fn maxRetries b attempt lastError r rule: withRetry_from.induct)
  case (1 fn maxRetries baseDelayMs attempt lastError r)
  show ?case
  proof (cases "attempt < maxRetries")
    case False
    then show ?thesis by (simp add: withRetry_from.simps)
  next
    case True
    obtain res w where fw: "fn (world r) = (res, w)" by (cases "fn (world r)")
    show ?thesis
    proof (cases res)
      case (Inr v)
      with True fw show ?thesis
        by (simp add: withRetry_from.simps [of fn maxRetries baseDelayMs attempt])
    next
      case (Inl e)
      show ?thesis
      proof (cases "non_retryable e")
        case True
        with \<open>attempt < maxRetries\<close> fw Inl show ?thesis
          by (simp add: withRetry_from.simps [of fn maxRetries baseDelayMs attempt])
      next
        case False
        let ?r1 = "r\<lparr>world := w, invocations := invocations r + 1\<rparr>"
        let ?r2 = "if attempt + 1 < maxRetries
                   then ?r1\<lparr>waits := waits ?r1 @ [baseDelayMs * 2 ^ attempt]\<rparr> else ?r1"
        let ?res = "withRetry_from fn maxRetries baseDelayMs (attempt + 1) (Some e) ?r2"
        from "1.IH" [OF True fw [symmetric] Inl refl False]
        have i: "invocations ?r2 \<le> invocations (snd ?res)"
          and "\<exists>more. waits (snd ?res) = waits ?r2 @ more"
          by simp_all
        then obtain more where more: "waits (snd ?res) = waits ?r2 @ more" by blast
        have "\<exists>m0. waits ?r2 = waits r @ m0" by simp
        then obtain m0 where m0: "waits ?r2 = waits r @ m0" by blast
        have "invocations r \<le> invocations ?r2" by simp
        from this i have "invocations r \<le> invocations (snd ?res)" by (rule le_trans)
        moreover from more m0 have "waits (snd ?res) = waits r @ (m0 @ more)" by simp
        ultimately have "invocations r \<le> invocations (snd ?res)
                         \<and> (\<exists>more. waits (snd ?res) = waits r @ more)"
          by blast
        moreover have "withRetry_from fn maxRetries baseDelayMs attempt lastError r = ?res"
          using True fw Inl False
          by (simp add: withRetry_from.simps [of fn maxRetries baseDelayMs attempt] Let_def)
        ultimately show ?thesis by simp
      qed
    qed
  qed
qed

lemma withRetry_from_invokes:
  assumes "attempt < maxRetries"
  shows "invocations r + 1 \<le> invocations (snd (withRetry_from fn maxRetries b attempt lastError r))"
proof -
  obtain res w where fw: "fn (world r) = (res, w)" by (cases "fn (world r)")
  show ?thesis
  proof (cases res)
    case (Inr v)
    with assms fw show ?thesis
      by (simp add: withRetry_from.simps [of fn maxRetries b attempt])
  next
    case (Inl e)
    show ?thesis
    proof (cases "non_retryable e")
      case True
      with assms fw Inl show ?thesis
        by (simp add: withRetry_from.simps [of fn maxRetries b attempt])
    next
      case False
      let ?r1 = "r\<lparr>world := w, invocations := invocations r + 1\<rparr>"
      let ?r2 = "if attempt + 1 < maxRetries
                 then ?r1\<lparr>waits := waits ?r1 @ [b * 2 ^ attempt]\<rparr> else ?r1"
      have "invocations ?r2
              \<le> invocations (snd (withRetry_from fn maxRetries b (attempt + 1) (Some e) ?r2))"
        using withRetry_from_extends [of ?r2 fn maxRetries b "attempt + 1" "Some e"] by blast
      moreover have "invocations ?r2 = invocations r + 1" by simp
      moreover have "withRetry_from fn maxRetries b attempt lastError r
                       = withRetry_from fn maxRetries b (attempt + 1) (Some e) ?r2"
        using assms fw Inl False
        by (simp add: withRetry_from.simps [of fn maxRetries b attempt] Let_def)
      ultimately show ?thesis by simp
    qed
  qed
qed

text \<open>
  Claim C8, as the code has it. The test of line 117 looks for the two texts
  \<open>unauthorized\<close> and \<open>Invalid\<close>, with these letter cases. When the first invocation
  throws an error whose message contains one of them, \<open>withRetry\<close> rethrows that error
  after this single invocation, without any delay. An error with any other message is
  retried when \<open>maxRetries\<close> is more than 1: the delay \<open>b * 2^0\<close> is waited and the
  operation is invoked again. The claim's "message indicates an auth or validation
  failure" fails: \<open>HTTP 401\<close> and \<open>Validation failed: Missing thread UUID\<close>, which
  \<open>classifyError\<close> takes for an auth error and a data error, are each tried 3 times
  with the delays 2000 and 4000.
\<close>

theorem withRetry_literal_markers:
  assumes "0 < maxRetries" and "fn s = (Inl e, s')"
  shows "(message_includes e ''unauthorized'' \<or> message_includes e ''Invalid'' \<longrightarrow>
            withRetry fn maxRetries b s
            = (Inl (Some e), \<lparr>world = s', invocations = 1, waits = []\<rparr>))
       \<and> (\<not> (message_includes e ''unauthorized'' \<or> message_includes e ''Invalid'')
           \<and> 1 < maxRetries \<longrightarrow>
            2 \<le> invocations (snd (withRetry fn maxRetries b s))
            \<and> take 1 (waits (snd (withRetry fn maxRetries b s))) = [b * 2 ^ 0])"
proof (rule conjI; rule impI)
  assume "message_includes e ''unauthorized'' \<or> message_includes e ''Invalid''"
  then have "non_retryable e" by (simp add: non_retryable_def)
  with assms show "withRetry fn maxRetries b s
            = (Inl (Some e), \<lparr>world = s', invocations = 1, waits = []\<rparr>)"
    unfolding withRetry_def by (subst withRetry_from.simps) simp
next
  assume h: "\<not> (message_includes e ''unauthorized'' \<or> message_includes e ''Invalid'')
           \<and> 1 < maxRetries"
  then have nr: "\<not> non_retryable e" and m: "1 < maxRetries"
    by (simp_all add: non_retryable_def)
  let ?r1 = "\<lparr>world = s', invocations = 1, waits = [b * 2 ^ 0]\<rparr>"
  have eq: "withRetry fn maxRetries b s = withRetry_from fn maxRetries b 1 (Some e) ?r1"
    using assms nr m unfolding withRetry_def
    by (subst withRetry_from.simps) (simp add: Let_def)
  have "invocations ?r1 + 1 \<le> invocations (snd (withRetry_from fn maxRetries b 1 (Some e) ?r1))"
    using m by (rule withRetry_from_invokes)
  moreover obtain more where
    "waits (snd (withRetry_from fn maxRetries b 1 (Some e) ?r1)) = waits ?r1 @ more"
    using withRetry_from_extends [of ?r1 fn maxRetries b 1 "Some e"] by blast
  ultimately show "2 \<le> invocations (snd (withRetry fn maxRetries b s))
            \<and> take 1 (waits (snd (withRetry fn maxRetries b s))) = [b * 2 ^ 0]"
    unfolding eq by simp
qed

theorem withRetry_literal_markers_witness:
  "withRetry always_unauthorized 3 2000 0
     = (Inl (Some \<lparr>message = Some ''401 unauthorized''\<rparr>),
        \<lparr>world = 1, invocations = 1, waits = []\<rparr>)
   \<and> 2 \<le> invocations (snd (withRetry always_http_401 3 2000 0))
   \<and> take 1 (waits (snd (withRetry always_http_401 3 2000 0))) = [2000]"
proof -
  have f: "always_unauthorized 0 = (Inl \<lparr>message = Some ''401 unauthorized''\<rparr>, 1)"
    by (simp add: always_unauthorized_def)
  have g: "always_http_401 0 = (Inl \<lparr>message = Some ''HTTP 401''\<rparr>, 1)"
    by (simp add: always_http_401_def)
  have a: "withRetry always_unauthorized 3 2000 0
     = (Inl (Some \<lparr>message = Some ''401 unauthorized''\<rparr>),
        \<lparr>world = 1, invocations = 1, waits = []\<rparr>)"
    using withRetry_literal_markers [of 3 always_unauthorized 0 _ 1 2000, OF _ f]
    by (simp add: message_includes_def)
  have b: "2 \<le> invocations (snd (withRetry always_http_401 3 2000 0))
   \<and> take 1 (waits (snd (withRetry always_http_401 3 2000 0))) = [2000]"
    using withRetry_literal_markers [of 3 always_http_401 0 _ 1 2000, OF _ g]
    by (simp add: message_includes_def)
  from a b show ?thesis by (rule conjI)
qed

theorem withRetry_auth_validation_counterexample:
  "classifyError \<lparr>message = Some ''HTTP 401''\<rparr> = AUTH_ERROR
   \<and> withRetry always_http_401 3 2000 0
       = (Inl (Some \<lparr>message = Some ''HTTP 401''\<rparr>),
          \<lparr>world = 3, invocations = 3, waits = [2000, 4000]\<rparr>)
   \<and> classifyError \<lparr>message = Some ''Validation failed: Missing thread UUID''\<rparr> = DATA_ERROR
   \<and> withRetry always_validation_failed 3 2000 0
       = (Inl (Some \<lparr>message = Some ''Validation failed: Missing thread UUID''\<rparr>),
          \<lparr>world = 3, invocations = 3, waits = [2000, 4000]\<rparr>)"
  by (simp add: withRetry_3_unfold always_http_401_def always_validation_failed_def
        non_retryable_def message_includes_def classifyError_def toLowerCase_def
        lower_char_def is_upper_def or_default_def Let_def char_of_def bit_0)

section \<open>Properties of the RateLimiter\<close>

lemma length_filter_mono:
  "(\<And>x. x \<in> set xs \<Longrightarrow> P x \<Longrightarrow> Q x) \<Longrightarrow> length (filter P xs) \<le> length (filter Q xs)"
  by (induction xs) auto

lemma limiter_invI:
  assumes "\<And>t. t \<in> set (map snd (dispatched s)) \<Longrightarrow> t \<le> clock s"
    and "lim + 60000 \<le> clock s"
    and "requestTimestamps s = filter (\<lambda>t. lim < t) (map snd (dispatched s))"
    and "\<And>T. dispatches_in_window T (dispatched s) \<le> requestsPerMinute s"
  shows "limiter_inv s"
  unfolding limiter_inv_def using assms by blast

lemma limiter_inv_queue [simp]:
  "limiter_inv (s\<lparr>queue := q\<rparr>) = limiter_inv s"
  "limiter_inv (s\<lparr>rejected := r\<rparr>) = limiter_inv s"
  "limiter_inv (s\<lparr>processing := b\<rparr>) = limiter_inv s"
  "limiter_inv (s\<lparr>worker := w\<rparr>) = limiter_inv s"
  "limiter_inv (s\<lparr>next_call := n\<rparr>) = limiter_inv s"
  "limiter_inv (s\<lparr>delays := ds\<rparr>) = limiter_inv s"
  by (simp_all add: limiter_inv_def)

lemma limiter_inv_wait:
  assumes "limiter_inv s"
  shows "limiter_inv (s\<lparr>requestTimestamps := filter (\<lambda>t. clock s - t < 60000) (requestTimestamps s)\<rparr>)"
proof -
  from assms obtain lim where lim: "lim + 60000 \<le> clock s"
    and rts: "requestTimestamps s = filter (\<lambda>t. lim < t) (map snd (dispatched s))"
    by (auto simp: limiter_inv_def)
  have "filter (\<lambda>t. clock s - t < 60000) (requestTimestamps s)
          = filter (\<lambda>t. clock s - 60000 < t) (map snd (dispatched s))"
    unfolding rts filter_filter using lim by (intro filter_cong) auto
  then show ?thesis
    using assms by (intro limiter_invI [where lim = "clock s - 60000"]) (auto simp: limiter_inv_def)
qed

lemma limiter_inv_dispatch:
  assumes inv: "limiter_inv s"
    and room: "length (filter (\<lambda>t. clock s - t < 60000) (requestTimestamps s)) < requestsPerMinute s"
  shows "limiter_inv
           (s\<lparr>requestTimestamps := filter (\<lambda>t. clock s - t < 60000) (requestTimestamps s) @ [clock s + int skew],
              clock := clock s + int skew,
              dispatched := dispatched s @ [(i, clock s + int skew)]\<rparr>)"
proof -
  let ?d = "map snd (dispatched s)"
  let ?td = "clock s + int skew"
  from inv obtain lim where lim: "lim + 60000 \<le> clock s"
    and rts: "requestTimestamps s = filter (\<lambda>t. lim < t) ?d"
    by (auto simp: limiter_inv_def)
  from inv have le: "\<forall>t\<in>set ?d. t \<le> clock s"
    and win: "\<forall>T. dispatches_in_window T (dispatched s) \<le> requestsPerMinute s"
    by (auto simp: limiter_inv_def)
  have ts: "filter (\<lambda>t. clock s - t < 60000) (requestTimestamps s)
          = filter (\<lambda>t. clock s - 60000 < t) ?d"
    unfolding rts filter_filter using lim by (intro filter_cong) auto
  have a: "\<forall>t\<in>set (?d @ [?td]). t \<le> ?td"
    using le by auto
  have b: "clock s - 60000 + 60000 \<le> ?td
           \<and> filter (\<lambda>t. clock s - t < 60000) (requestTimestamps s) @ [?td]
               = filter (\<lambda>t. clock s - 60000 < t) (?d @ [?td])"
    unfolding ts by simp
  have c: "dispatches_in_window T (dispatched s @ [(i, ?td)]) \<le> requestsPerMinute s" for T
  proof (cases "T - 60000 < ?td \<and> ?td \<le> T")
    case False
    then have "dispatches_in_window T (dispatched s @ [(i, ?td)]) = dispatches_in_window T (dispatched s)"
      by (auto simp: dispatches_in_window_def)
    with win show ?thesis by simp
  next
    case True
    have "length (filter (\<lambda>t. T - 60000 < t \<and> t \<le> T) ?d)
            \<le> length (filter (\<lambda>t. clock s - 60000 < t) ?d)"
      using True by (intro length_filter_mono) auto
    also have "\<dots> < requestsPerMinute s" using room unfolding ts .
    finally show ?thesis using True by (simp add: dispatches_in_window_def)
  qed
  show ?thesis
    using a b c by (intro limiter_invI [where lim = "clock s - 60000"]) auto
qed

lemma processQueue_loop_inv:
  "limiter_inv s \<Longrightarrow> limiter_inv (processQueue_loop skew s)"
proof (induction skew s rule: processQueue_loop.induct)
  case (1 skew s)
  show ?case
  proof (cases "queue s")
    case Nil
    with "1.prems" show ?thesis by (simp add: processQueue_loop.simps [of skew s])
  next
    case (Cons item rest)
    show ?thesis
    proof (cases "clock s - addedAt item > 5 * 60 * 1000")
      case True
      with Cons "1.IH" [OF Cons refl True] "1.prems" show ?thesis
        by (simp add: processQueue_loop.simps [of skew s])
    next
      case False
      show ?thesis
      proof (cases "length (filter (\<lambda>t. clock s - t < 60000) (requestTimestamps s)) \<ge> requestsPerMinute s")
        case True
        with Cons False limiter_inv_wait [OF "1.prems"] show ?thesis
          by (simp add: processQueue_loop.simps [of skew s] Let_def)
      next
        case nofull: False
        then have "length (filter (\<lambda>t. clock s - t < 60000) (requestTimestamps s)) < requestsPerMinute s"
          by simp
        with "1.prems"
        have "limiter_inv
                ((s\<lparr>queue := rest\<rparr>)\<lparr>requestTimestamps :=
                     filter (\<lambda>t. clock s - t < 60000) (requestTimestamps s) @ [clock s + int skew],
                   clock := clock s + int skew,
                   dispatched := dispatched s @ [(call_id item, clock s + int skew)]\<rparr>)"
          using limiter_inv_dispatch [where s = "s\<lparr>queue := rest\<rparr>" and skew = skew and i = "call_id item"]
          by simp
        then show ?thesis using Cons False nofull
          by (simp add: processQueue_loop.simps [of skew s] Let_def)
      qed
    qed
  qed
qed

lemma processQueue_loop_rpm:
  "requestsPerMinute (processQueue_loop skew s) = requestsPerMinute s"
proof (induction skew s rule: processQueue_loop.induct)
  case (1 skew s)
  show ?case
  proof (cases "queue s")
    case Nil
    then show ?thesis by (simp add: processQueue_loop.simps [of skew s])
  next
    case (Cons item rest)
    show ?thesis
    proof (cases "clock s - addedAt item > 5 * 60 * 1000")
      case True
      with Cons "1.IH" [OF Cons refl True] show ?thesis
        by (simp add: processQueue_loop.simps [of skew s])
    next
      case False
      with Cons show ?thesis
        by (simp add: processQueue_loop.simps [of skew s] Let_def)
    qed
  qed
qed

lemma limiter_inv_elapse:
  "limiter_inv s \<Longrightarrow> limiter_inv (s\<lparr>clock := clock s + int d\<rparr>)"
proof -
  assume inv: "limiter_inv s"
  then obtain lim where lim: "lim + 60000 \<le> clock s"
    and rts: "requestTimestamps s = filter (\<lambda>t. lim < t) (map snd (dispatched s))"
    by (auto simp: limiter_inv_def)
  show ?thesis
    using inv lim rts by (intro limiter_invI [where lim = lim]) (auto simp: limiter_inv_def)
qed

lemma step_inv: "limiter_inv s \<Longrightarrow> limiter_inv (step ev s)"
proof (cases ev)
  case (Submit skew)
  assume "limiter_inv s"
  then show ?thesis using Submit
    by (auto simp: Let_def intro!: processQueue_loop_inv)
next
  case (Elapse d)
  assume "limiter_inv s"
  then show ?thesis using Elapse by (simp add: limiter_inv_elapse)
next
  case (TimerFires skew)
  assume "limiter_inv s"
  then show ?thesis using TimerFires
    by (auto split: worker.splits intro!: processQueue_loop_inv)
next
  case FnSettles
  assume "limiter_inv s"
  then show ?thesis using FnSettles by (auto split: worker.splits)
qed

lemma step_rpm: "requestsPerMinute (step ev s) = requestsPerMinute s"
  by (cases ev) (auto simp: Let_def processQueue_loop_rpm split: worker.splits)

lemma run_inv: "limiter_inv s \<Longrightarrow> limiter_inv (run evs s)"
  unfolding run_def by (induction evs arbitrary: s) (auto simp: step_inv)

lemma run_rpm: "requestsPerMinute (run evs s) = requestsPerMinute s"
  unfolding run_def by (induction evs arbitrary: s) (auto simp: step_rpm)

lemma new_RateLimiter_inv: "limiter_inv (new_RateLimiter R t0)"
  by (intro limiter_invI [where lim = "t0 - 60000"])
     (simp_all add: new_RateLimiter_def dispatches_in_window_def)

text \<open>
  Claim C2. Whatever is submitted to a limiter created with \<open>requestsPerMinute = R\<close>, and
  whenever, and however long the calls and the timers take: at every moment, for every
  time \<open>T\<close>, at most \<open>R\<close> of the dispatches made so far have a time stamp in the
  60-second window \<open>(T - 60000, T]\<close>. The window is the one of line 188, which keeps a
  time stamp \<open>t\<close> while \<open>now - t < 60000\<close>.
\<close>

theorem rate_limit_ceiling:
  "dispatches_in_window T (dispatched (run evs (new_RateLimiter R t0))) \<le> R"
proof -
  have "limiter_inv (run evs (new_RateLimiter R t0))"
    by (rule run_inv [OF new_RateLimiter_inv])
  then have "dispatches_in_window T (dispatched (run evs (new_RateLimiter R t0)))
               \<le> requestsPerMinute (run evs (new_RateLimiter R t0))"
    by (simp add: limiter_inv_def)
  then show ?thesis by (simp add: run_rpm new_RateLimiter_def)
qed

theorem rate_limit_ceiling_witness:
  "dispatched (run burst (new_RateLimiter 2 1000)) = [(0, 1000), (1, 1500), (2, 61200)]
   \<and> dispatches_in_window 61200 (dispatched (run burst (new_RateLimiter 2 1000))) \<le> 2"
  using rate_limit_ceiling [of 61200 burst 2 1000]
  by (simp add: burst_def run_def new_RateLimiter_def processQueue_loop.simps Let_def
        adaptive_delay_def waitTime_def)

text \<open>
  Claim C5, as the code has it. The delay after a dispatch is 200 ms when more than 50
  calls are pending and 500 ms otherwise: of two limiter states, one above the
  threshold and one not, the one above gets the shorter delay. The claim states the
  opposite order, which fails for 51 pending calls against 3.
\<close>

theorem adaptive_delay_shorter_above_threshold:
  assumes "50 < length (queue s1)" and "length (queue s2) \<le> 50"
  shows "adaptive_delay s1 = 200 \<and> adaptive_delay s2 = 500
         \<and> adaptive_delay s1 \<le> adaptive_delay s2
         \<and> (worker s1 = AwaitFn i \<longrightarrow>
              worker (step FnSettles s1) = AwaitTimer (clock s1 + 200))
         \<and> (worker s2 = AwaitFn j \<longrightarrow>
              worker (step FnSettles s2) = AwaitTimer (clock s2 + 500))"
  using assms by (simp add: adaptive_delay_def)

theorem adaptive_delay_shorter_above_threshold_witness:
  "adaptive_delay (backlog 51) = 200 \<and> adaptive_delay (backlog 3) = 500
   \<and> worker (step FnSettles (backlog 51)) = AwaitTimer 200
   \<and> worker (step FnSettles (backlog 3)) = AwaitTimer 500"
  using adaptive_delay_shorter_above_threshold [of "backlog 51" "backlog 3" 0 0]
  by (simp add: backlog_def new_RateLimiter_def)

theorem adaptive_delay_counterexample:
  "50 < length (queue (backlog 51)) \<and> length (queue (backlog 3)) \<le> 50
   \<and> adaptive_delay (backlog 51) < adaptive_delay (backlog 3)"
  by (simp add: adaptive_delay_def backlog_def)

section \<open>Properties of getActiveJob\<close>

lemma startsWith_append_drop: "startsWith s p \<Longrightarrow> s = p @ drop (length p) s"
  by (induction s p rule: startsWith.induct) auto

lemma replace_first_prefix:
  "startsWith s p \<Longrightarrow> p \<noteq> [] \<Longrightarrow> replace_first s p [] = drop (length p) s"
  by (cases s) auto

lemma getActiveJob_skip:
  "\<not> resumable now kv \<Longrightarrow> getActiveJob now (kv # st) = getActiveJob now st"
  by (cases kv; cases "snd kv") (auto simp: resumable_def)

lemma getActiveJob_hit:
  "resumable now kv \<Longrightarrow> getActiveJob now (kv # st) \<noteq> None"
  by (cases kv; cases "snd kv") (auto simp: resumable_def)

lemma getActiveJob_None:
  "(getActiveJob now st = None) = (\<not> list_ex (resumable now) st)"
proof (induction st)
  case Nil
  show ?case by simp
next
  case (Cons kv st)
  show ?case
  proof (cases "resumable now kv")
    case True
    then show ?thesis using getActiveJob_hit [of now kv st] by simp
  next
    case False
    then show ?thesis using getActiveJob_skip [of now kv st] Cons.IH by simp
  qed
qed

lemma getActiveJob_Some:
  "getActiveJob now st = Some (jobId, p) \<Longrightarrow>
     (''export_progress_'' @ jobId, Progress p) \<in> set st
     \<and> now - lastUpdate p < 60 * 60 * 1000 \<and> current p < total p"
proof (induction st)
  case Nil
  then show ?case by simp
next
  case (Cons kv st)
  obtain key v where kv: "kv = (key, v)" by (cases kv)
  show ?case
  proof (cases "resumable now kv")
    case True
    then obtain q where v: "v = Progress q" and sw: "startsWith key ''export_progress_''"
      and fresh: "now - lastUpdate q < 60 * 60 * 1000" "current q < total q"
      by (auto simp: resumable_def kv split: stored_value.splits)
    from Cons.prems kv v sw fresh
    have "jobId = replace_first key ''export_progress_'' []" and "p = q" by auto
    moreover from sw
    have "replace_first key ''export_progress_'' [] = drop (length ''export_progress_'') key"
      using replace_first_prefix [of key "''export_progress_''"] by simp
    moreover from sw have "key = ''export_progress_'' @ drop (length ''export_progress_'') key"
      using startsWith_append_drop [of key "''export_progress_''"] by simp
    ultimately have "key = ''export_progress_'' @ jobId" and "p = q" by simp_all
    then show ?thesis using kv v fresh by simp
  next
    case False
    with Cons.prems kv have "getActiveJob now st = Some (jobId, p)"
      by (auto simp: resumable_def split: stored_value.splits if_splits)
    with Cons.IH show ?thesis by simp
  qed
qed

text \<open>
  Claim C9. \<open>getActiveJob\<close> returns a job exactly when some item stored under a key
  that starts with \<open>export_progress_\<close> is a progress record less than one hour old
  (\<open>now - lastUpdate < 3600000\<close>) with \<open>current < total\<close>, and \<open>null\<close> otherwise; the
  job it returns is such a record, under the key \<open>export_progress_\<close> followed by the
  job id it returns.
\<close>

theorem getActiveJob_iff_resumable:
  "(getActiveJob now st \<noteq> None) =
     (\<exists>(key, v)\<in>set st. startsWith key ''export_progress_'' \<and>
        (\<exists>p. v = Progress p \<and> now - lastUpdate p < 60 * 60 * 1000 \<and> current p < total p))
   \<and> (\<forall>jobId p. getActiveJob now st = Some (jobId, p) \<longrightarrow>
        (''export_progress_'' @ jobId, Progress p) \<in> set st
        \<and> now - lastUpdate p < 60 * 60 * 1000 \<and> current p < total p)"
proof -
  have r: "resumable now kv =
     (case kv of (key, v) \<Rightarrow> startsWith key ''export_progress_'' \<and>
        (\<exists>p. v = Progress p \<and> now - lastUpdate p < 60 * 60 * 1000 \<and> current p < total p))"
    for kv
    by (cases kv; cases "snd kv") (auto simp: resumable_def)
  have "list_ex (resumable now) st =
     (\<exists>(key, v)\<in>set st. startsWith key ''export_progress_'' \<and>
        (\<exists>p. v = Progress p \<and> now - lastUpdate p < 60 * 60 * 1000 \<and> current p < total p))"
    by (simp add: list_ex_iff r)
  with getActiveJob_None [of now st]
  have "(getActiveJob now st \<noteq> None) =
     (\<exists>(key, v)\<in>set st. startsWith key ''export_progress_'' \<and>
        (\<exists>p. v = Progress p \<and> now - lastUpdate p < 60 * 60 * 1000 \<and> current p < total p))"
    by simp
  moreover have "\<forall>jobId p. getActiveJob now st = Some (jobId, p) \<longrightarrow>
        (''export_progress_'' @ jobId, Progress p) \<in> set st
        \<and> now - lastUpdate p < 60 * 60 * 1000 \<and> current p < total p"
    using getActiveJob_Some [of now st] by blast
  ultimately show ?thesis by (rule conjI)
qed

theorem getActiveJob_iff_resumable_witness:
  "getActiveJob 3000 stored_jobs
     = Some (''job_2'', \<lparr>current = 10, total = 50, job_success = 9, job_failed = 1,
                         job_uuids = [], lastUpdate = 2000\<rparr>)
   \<and> getActiveJob 3700000 stored_jobs = None"
proof -
  have a: "getActiveJob 3000 stored_jobs \<noteq> None"
    using getActiveJob_iff_resumable [of 3000 stored_jobs]
    by (simp add: stored_jobs_def)
  have b: "getActiveJob 3700000 stored_jobs = None"
    using getActiveJob_iff_resumable [of 3700000 stored_jobs]
    by (simp add: stored_jobs_def)
  from a b show ?thesis by (simp add: stored_jobs_def)
qed

section \<open>Properties of validateThreadData\<close>

lemma emptyEntries_fold:
  "emptyEntries (fold tally_entry es t) = emptyEntries t + count_unanswered es"
  by (induction es arbitrary: t) (auto simp: tally_entry_def count_unanswered_def Let_def)

lemma count_neither_le: "count_neither es \<le> count_unanswered es"
  unfolding count_neither_def count_unanswered_def
  by (induction es) (auto simp: neither_query_nor_answer_def)

lemma valid_iff:
  "valid (validateThreadData data_opt platform) =
     (case data_opt of
        None \<Rightarrow> False
      | Some data \<Rightarrow>
          truthy (uuid data) \<and> entries_of data \<noteq> []
          \<and> \<not> length (entries_of data) < 2 * count_unanswered (entries_of data))"
  by (auto simp: validateThreadData_def Let_def emptyEntries_fold split: option.splits)

text \<open>
  Claim C4, as the code has it. \<open>validateThreadData\<close> returns \<open>valid = false\<close> exactly
  when the data is not an object, has no entries, has no uuid, or more than half of its
  entries have no answer, with or without a query. Every input that the claim calls
  invalid is therefore invalid, and so is one with 4 entries of which 3 have neither
  query nor answer. The claim's "exactly when" fails: a thread whose only entry has a
  query and no answer is invalid, and none of its entries has neither.
\<close>

theorem validateThreadData_invalid_iff:
  "(\<not> valid (validateThreadData data_opt platform)) =
     (case data_opt of
        None \<Rightarrow> True
      | Some data \<Rightarrow>
          entries_of data = [] \<or> \<not> truthy (uuid data)
          \<or> length (entries_of data) < 2 * count_unanswered (entries_of data))
   \<and> (spec_hard_failure data_opt \<longrightarrow> \<not> valid (validateThreadData data_opt platform))
   \<and> (length (entries_of data) = 4 \<and> count_neither (entries_of data) = 3
        \<longrightarrow> \<not> valid (validateThreadData (Some data) platform))"
proof (intro conjI impI)
  show "(\<not> valid (validateThreadData data_opt platform)) =
     (case data_opt of
        None \<Rightarrow> True
      | Some data \<Rightarrow>
          entries_of data = [] \<or> \<not> truthy (uuid data)
          \<or> length (entries_of data) < 2 * count_unanswered (entries_of data))"
    by (cases data_opt) (auto simp: valid_iff)
next
  assume h: "spec_hard_failure data_opt"
  show "\<not> valid (validateThreadData data_opt platform)"
  proof (cases data_opt)
    case None
    then show ?thesis by (simp add: valid_iff)
  next
    case (Some d)
    have "count_neither (entries_of d) \<le> count_unanswered (entries_of d)"
      by (rule count_neither_le)
    with h Some show ?thesis
      by (auto simp: valid_iff spec_hard_failure_def)
  qed
next
  assume h: "length (entries_of data) = 4 \<and> count_neither (entries_of data) = 3"
  have "count_neither (entries_of data) \<le> count_unanswered (entries_of data)"
    by (rule count_neither_le)
  with h show "\<not> valid (validateThreadData (Some data) platform)"
    by (simp add: valid_iff)
qed

theorem validateThreadData_invalid_iff_witness:
  "\<not> valid (validateThreadData (Some mostly_blank_thread) ''ChatGPT'')"
proof -
  have "length (entries_of mostly_blank_thread) = 4 \<and> count_neither (entries_of mostly_blank_thread) = 3"
    by (simp add: mostly_blank_thread_def entries_of_def count_neither_def
          neither_query_nor_answer_def full_entry_def blank_entry_def hasAnswer_def hasQuestion_def
          hasTextBlock_def truthy_def)
  then show ?thesis
    using validateThreadData_invalid_iff [of "Some mostly_blank_thread" "''ChatGPT''" mostly_blank_thread]
    by simp
qed

theorem validateThreadData_counterexample:
  "\<not> valid (validateThreadData (Some query_only_thread) ''ChatGPT'')
   \<and> \<not> spec_hard_failure (Some query_only_thread)"
  by (simp add: valid_iff spec_hard_failure_def query_only_thread_def query_only_entry_def
        entries_of_def count_unanswered_def count_neither_def neither_query_nor_answer_def
        hasAnswer_def hasQuestion_def hasTextBlock_def truthy_def)

section \<open>Properties of syncSingleThread\<close>

lemma to_radix_nonempty: "to_radix b n \<noteq> []"
  by (subst to_radix.simps) simp

lemma simpleHash_nonempty: "simpleHash str \<noteq> []"
  by (simp add: simpleHash_def int_to_radix_def to_radix_nonempty)

lemma generateFingerprint_nonempty: "generateFingerprint data \<noteq> []"
  by (simp add: generateFingerprint_def simpleHash_nonempty)

lemma hasChanged_same:
  "fps u = Some (generateFingerprint data) \<Longrightarrow> \<not> hasChanged fps u (generateFingerprint data)"
  by (simp add: hasChanged_def generateFingerprint_nonempty)

text \<open>
  Claim C1. \<open>syncSingleThread\<close> computes the fingerprint (line 1839) in a run that found
  a tab, received the thread's data and found it valid. When that fingerprint equals the
  one stored for the thread's uuid and the force flag is false, the run returns with the
  thread marked Skipped, without a call of \<open>syncToNotion\<close> and with the stored
  fingerprints as they were.
\<close>

theorem unchanged_thread_is_skipped:
  assumes "tab (attempt_at env (pipeline_runs s)) = TabFound"
    and "extraction (attempt_at env (pipeline_runs s)) = Inr (Some data)"
    and "valid (validateThreadData (Some data) (currentPlatform env))"
    and "exportFingerprints s (thread_uuid thread) = Some (generateFingerprint data)"
  shows "\<exists>s'. syncSingleThread (Suc fuel) env thread False s = Some s'
           \<and> syncStatusMap s' (thread_uuid thread) = Some Skipped
           \<and> syncToNotion_calls s' = syncToNotion_calls s
           \<and> exportFingerprints s' = exportFingerprints s
           \<and> pipeline_runs s' = pipeline_runs s + 1"
  using assms hasChanged_same [of "exportFingerprints s" "thread_uuid thread" data]
  by (simp add: sync_attempt_def mark_def Let_def)

theorem unchanged_thread_is_skipped_witness:
  "\<exists>s1 s2. syncSingleThread 1 env_t1 thread_t1 False app0 = Some s1
      \<and> syncStatusMap s1 ''t1'' = Some Synced \<and> syncToNotion_calls s1 = 1
      \<and> exportFingerprints s1 ''t1'' = Some (generateFingerprint data_t1)
      \<and> syncSingleThread 1 env_t1 thread_t1 False s1 = Some s2
      \<and> syncStatusMap s2 ''t1'' = Some Skipped \<and> syncToNotion_calls s2 = 1
      \<and> exportFingerprints s2 = exportFingerprints s1"
proof -
  have v: "valid (validateThreadData (Some data_t1) ''ChatGPT'')"
    by (simp add: validateThreadData_def data_t1_def full_entry_def entries_of_def Let_def
          tally_entry_def hasQuestion_def hasAnswer_def hasTextBlock_def truthy_def)
  have ch: "hasChanged Map.empty ''t1'' (generateFingerprint data_t1)"
    by (simp add: hasChanged_def)
  obtain s1 where s1: "syncSingleThread 1 env_t1 thread_t1 False app0 = Some s1"
    and p1: "syncStatusMap s1 ''t1'' = Some Synced" "syncToNotion_calls s1 = 1"
      "exportFingerprints s1 ''t1'' = Some (generateFingerprint data_t1)"
      "pipeline_runs s1 = 1"
    using v ch
    by (simp add: env_t1_def answers_t1_def thread_t1_def app0_def sync_attempt_def mark_def
          saveFingerprint_def Let_def)
  have "\<exists>s'. syncSingleThread (Suc 0) env_t1 thread_t1 False s1 = Some s'
           \<and> syncStatusMap s' (thread_uuid thread_t1) = Some Skipped
           \<and> syncToNotion_calls s' = syncToNotion_calls s1
           \<and> exportFingerprints s' = exportFingerprints s1
           \<and> pipeline_runs s' = pipeline_runs s1 + 1"
    using v p1
    by (intro unchanged_thread_is_skipped [where data = data_t1])
       (simp_all add: env_t1_def answers_t1_def thread_t1_def)
  with s1 p1 show ?thesis by (auto simp: thread_t1_def)
qed

lemma syncSingleThread_retry_step:
  assumes "tab (attempt_at env (pipeline_runs s)) = TabFound"
    and "sync_attempt (currentPlatform env) (attempt_at env (pipeline_runs s)) thread force
           (mark (thread_uuid thread) Syncing (s\<lparr>pipeline_runs := pipeline_runs s + 1\<rparr>))
         = Inl (e, s1)"
    and "retry_with_delay (handleExportError (onLine (attempt_at env (pipeline_runs s))) e)"
  shows "syncSingleThread (Suc fuel) env thread force s
         = syncSingleThread fuel env thread force
             (s1\<lparr>timers := timers s1 @
                  [the (delay (handleExportError (onLine (attempt_at env (pipeline_runs s))) e))]\<rparr>)"
  using assms by (simp add: Let_def)

lemma syncSingleThread_no_retry:
  assumes "tab (attempt_at env (pipeline_runs s)) = TabFound"
    and "sync_attempt (currentPlatform env) (attempt_at env (pipeline_runs s)) thread force
           (mark (thread_uuid thread) Syncing (s\<lparr>pipeline_runs := pipeline_runs s + 1\<rparr>))
         = Inl (e, s1)"
    and "\<not> retry_with_delay (handleExportError (onLine (attempt_at env (pipeline_runs s))) e)"
  shows "syncSingleThread (Suc fuel) env thread force s
         = Some (reportFailure (thread_uuid thread)
                   (or_else (recovery_message
                               (handleExportError (onLine (attempt_at env (pipeline_runs s))) e))
                            (message e))
                   (thread_title thread) (mark (thread_uuid thread) Failed s1))"
  using assms by (simp add: Let_def)

lemma sync_attempt_runs:
  shows "sync_attempt platform a thread force s = Inr s' \<Longrightarrow> pipeline_runs s' = pipeline_runs s"
    and "sync_attempt platform a thread force s = Inl (e, s') \<Longrightarrow> pipeline_runs s' = pipeline_runs s"
  by (auto simp: sync_attempt_def Let_def mark_def reportFailure_def
           split: sum.splits option.splits if_splits)

lemma extraction_throws:
  "extraction a = Inl e \<Longrightarrow> sync_attempt platform a thread force s = Inl (e, s)"
  by (simp add: sync_attempt_def)

lemma retries_unbounded:
  assumes "\<forall>k<n. tab (attempt_at env (pipeline_runs s + k)) = TabFound
              \<and> (\<exists>e. extraction (attempt_at env (pipeline_runs s + k)) = Inl e
                   \<and> retry_with_delay
                        (handleExportError (onLine (attempt_at env (pipeline_runs s + k))) e))"
  shows "\<exists>s'. syncSingleThread (n + fuel) env thread force s
                = syncSingleThread fuel env thread force s'
              \<and> pipeline_runs s' = pipeline_runs s + n
              \<and> length (timers s') = length (timers s) + n"
  using assms
proof (induction n arbitrary: s)
  case 0
  show ?case by (intro exI [of _ s]) simp
next
  case (Suc n)
  from Suc.prems have t: "tab (attempt_at env (pipeline_runs s)) = TabFound"
    and "\<exists>e. extraction (attempt_at env (pipeline_runs s)) = Inl e
               \<and> retry_with_delay (handleExportError (onLine (attempt_at env (pipeline_runs s))) e)"
    by force+
  then obtain e where e: "extraction (attempt_at env (pipeline_runs s)) = Inl e"
    and r: "retry_with_delay (handleExportError (onLine (attempt_at env (pipeline_runs s))) e)"
    by blast
  let ?s0 = "mark (thread_uuid thread) Syncing (s\<lparr>pipeline_runs := pipeline_runs s + 1\<rparr>)"
  let ?s1 = "?s0\<lparr>timers := timers ?s0 @
               [the (delay (handleExportError (onLine (attempt_at env (pipeline_runs s))) e))]\<rparr>"
  have step: "syncSingleThread (Suc (n + fuel)) env thread force s
                = syncSingleThread (n + fuel) env thread force ?s1"
    by (rule syncSingleThread_retry_step [OF t extraction_throws [OF e] r])
  have runs: "pipeline_runs ?s1 = pipeline_runs s + 1" by (simp add: mark_def)
  have "\<forall>k<n. tab (attempt_at env (pipeline_runs ?s1 + k)) = TabFound
              \<and> (\<exists>e. extraction (attempt_at env (pipeline_runs ?s1 + k)) = Inl e
                   \<and> retry_with_delay
                        (handleExportError (onLine (attempt_at env (pipeline_runs ?s1 + k))) e))"
  proof (intro allI impI)
    fix k assume "k < n"
    then have "Suc k < Suc n" by simp
    with Suc.prems show "tab (attempt_at env (pipeline_runs ?s1 + k)) = TabFound
              \<and> (\<exists>e. extraction (attempt_at env (pipeline_runs ?s1 + k)) = Inl e
                   \<and> retry_with_delay
                        (handleExportError (onLine (attempt_at env (pipeline_runs ?s1 + k))) e))"
      unfolding runs by (metis add_Suc_right add_Suc Suc_eq_plus1 add.commute)
  qed
  from Suc.IH [OF this] obtain s' where
    "syncSingleThread (n + fuel) env thread force ?s1 = syncSingleThread fuel env thread force s'"
    "pipeline_runs s' = pipeline_runs ?s1 + n" "length (timers s') = length (timers ?s1) + n"
    by blast
  with step runs show ?case by (auto simp: mark_def)
qed

text \<open>
  Claim C6, as the code has it. When the inner block of a run throws and the recovery
  directive says retry and carries a delay, \<open>syncSingleThread\<close> waits for the delay and
  runs the same item's pipeline again, and it does so after every such failure: \<open>n\<close>
  such failures in a row are followed by \<open>n\<close> further runs, for every \<open>n\<close>. Every other
  failure marks the item Failed and records its reason: an error whose directive has no
  retry or no delay (the directive's message, or else the error's), no tab, an error of
  \<open>getAITab\<close>, and data that is not valid. The claim's "at most once" fails: two 429
  answers in a row give three runs of the pipeline for one item.
\<close>

theorem retry_after_each_retryable_failure:
  "(tab (attempt_at env (pipeline_runs s)) = TabFound
    \<and> sync_attempt (currentPlatform env) (attempt_at env (pipeline_runs s)) thread force
          (mark (thread_uuid thread) Syncing (s\<lparr>pipeline_runs := pipeline_runs s + 1\<rparr>))
        = Inl (e, s1)
    \<and> retry_with_delay (handleExportError (onLine (attempt_at env (pipeline_runs s))) e) \<longrightarrow>
      syncSingleThread (Suc fuel) env thread force s
      = syncSingleThread fuel env thread force
          (s1\<lparr>timers := timers s1 @
               [the (delay (handleExportError (onLine (attempt_at env (pipeline_runs s))) e))]\<rparr>))
   \<and> ((\<forall>k<n. tab (attempt_at env (pipeline_runs s + k)) = TabFound
           \<and> (\<exists>e. extraction (attempt_at env (pipeline_runs s + k)) = Inl e
                \<and> retry_with_delay
                     (handleExportError (onLine (attempt_at env (pipeline_runs s + k))) e)))
        \<longrightarrow> (\<exists>s'. syncSingleThread (n + fuel) env thread force s
                      = syncSingleThread fuel env thread force s'
                    \<and> pipeline_runs s' = pipeline_runs s + n))
   \<and> (tab (attempt_at env (pipeline_runs s)) = TabFound
       \<and> sync_attempt (currentPlatform env) (attempt_at env (pipeline_runs s)) thread force
             (mark (thread_uuid thread) Syncing (s\<lparr>pipeline_runs := pipeline_runs s + 1\<rparr>))
           = Inl (e, s1)
       \<and> \<not> retry_with_delay (handleExportError (onLine (attempt_at env (pipeline_runs s))) e) \<longrightarrow>
        (\<exists>s'. syncSingleThread (Suc fuel) env thread force s = Some s'
           \<and> syncStatusMap s' (thread_uuid thread) = Some Failed
           \<and> map failure_reason (take 1 (failures s'))
               = [or_else (recovery_message
                             (handleExportError (onLine (attempt_at env (pipeline_runs s))) e))
                          (message e)]
           \<and> pipeline_runs s' = pipeline_runs s + 1))
   \<and> (tab (attempt_at env (pipeline_runs s)) = NoTab \<longrightarrow>
        (\<exists>s'. syncSingleThread (Suc fuel) env thread force s = Some s'
           \<and> syncStatusMap s' (thread_uuid thread) = Some Failed
           \<and> map failure_reason (take 1 (failures s')) = [Some ''No AI platform tab found'']
           \<and> pipeline_runs s' = pipeline_runs s + 1))
   \<and> (tab (attempt_at env (pipeline_runs s)) = TabThrows e0 \<longrightarrow>
        (\<exists>s'. syncSingleThread (Suc fuel) env thread force s = Some s'
           \<and> syncStatusMap s' (thread_uuid thread) = Some Failed
           \<and> map failure_reason (take 1 (failures s')) = [message e0]
           \<and> pipeline_runs s' = pipeline_runs s + 1))
   \<and> (tab (attempt_at env (pipeline_runs s)) = TabFound
       \<and> extraction (attempt_at env (pipeline_runs s)) = Inr data_opt
       \<and> \<not> valid (validateThreadData data_opt (currentPlatform env)) \<longrightarrow>
        (\<exists>s'. syncSingleThread (Suc fuel) env thread force s = Some s'
           \<and> syncStatusMap s' (thread_uuid thread) = Some Failed
           \<and> map failure_reason (take 1 (failures s'))
               = [Some (''Validation failed: '' @
                        join '', '' (errors (validateThreadData data_opt (currentPlatform env))))]
           \<and> pipeline_runs s' = pipeline_runs s + 1))"
proof (intro conjI impI)
  assume "tab (attempt_at env (pipeline_runs s)) = TabFound
    \<and> sync_attempt (currentPlatform env) (attempt_at env (pipeline_runs s)) thread force
          (mark (thread_uuid thread) Syncing (s\<lparr>pipeline_runs := pipeline_runs s + 1\<rparr>))
        = Inl (e, s1)
    \<and> retry_with_delay (handleExportError (onLine (attempt_at env (pipeline_runs s))) e)"
  then show "syncSingleThread (Suc fuel) env thread force s
      = syncSingleThread fuel env thread force
          (s1\<lparr>timers := timers s1 @
               [the (delay (handleExportError (onLine (attempt_at env (pipeline_runs s))) e))]\<rparr>)"
    using syncSingleThread_retry_step [of env s thread force e s1 fuel] by blast
next
  assume "\<forall>k<n. tab (attempt_at env (pipeline_runs s + k)) = TabFound
              \<and> (\<exists>e. extraction (attempt_at env (pipeline_runs s + k)) = Inl e
                   \<and> retry_with_delay
                        (handleExportError (onLine (attempt_at env (pipeline_runs s + k))) e))"
  from retries_unbounded [OF this, of fuel thread force]
  show "\<exists>s'. syncSingleThread (n + fuel) env thread force s
                          = syncSingleThread fuel env thread force s'
                        \<and> pipeline_runs s' = pipeline_runs s + n"
    by blast
next
  assume h: "tab (attempt_at env (pipeline_runs s)) = TabFound
       \<and> sync_attempt (currentPlatform env) (attempt_at env (pipeline_runs s)) thread force
             (mark (thread_uuid thread) Syncing (s\<lparr>pipeline_runs := pipeline_runs s + 1\<rparr>))
           = Inl (e, s1)
       \<and> \<not> retry_with_delay (handleExportError (onLine (attempt_at env (pipeline_runs s))) e)"
  then have runs: "pipeline_runs s1 = pipeline_runs s + 1"
    using sync_attempt_runs(2) [of "currentPlatform env" "attempt_at env (pipeline_runs s)" thread force
        "mark (thread_uuid thread) Syncing (s\<lparr>pipeline_runs := pipeline_runs s + 1\<rparr>)" e s1]
    by (simp add: mark_def)
  from h syncSingleThread_no_retry [of env s thread force e s1 fuel] runs
  show "\<exists>s'. syncSingleThread (Suc fuel) env thread force s = Some s'
           \<and> syncStatusMap s' (thread_uuid thread) = Some Failed
           \<and> map failure_reason (take 1 (failures s'))
               = [or_else (recovery_message
                             (handleExportError (onLine (attempt_at env (pipeline_runs s))) e))
                          (message e)]
           \<and> pipeline_runs s' = pipeline_runs s + 1"
    by (simp add: reportFailure_def mark_def)
next
  assume "tab (attempt_at env (pipeline_runs s)) = NoTab"
  then show "\<exists>s'. syncSingleThread (Suc fuel) env thread force s = Some s'
           \<and> syncStatusMap s' (thread_uuid thread) = Some Failed
           \<and> map failure_reason (take 1 (failures s')) = [Some ''No AI platform tab found'']
           \<and> pipeline_runs s' = pipeline_runs s + 1"
    by (simp add: Let_def reportFailure_def mark_def)
next
  assume "tab (attempt_at env (pipeline_runs s)) = TabThrows e0"
  then show "\<exists>s'. syncSingleThread (Suc fuel) env thread force s = Some s'
           \<and> syncStatusMap s' (thread_uuid thread) = Some Failed
           \<and> map failure_reason (take 1 (failures s')) = [message e0]
           \<and> pipeline_runs s' = pipeline_runs s + 1"
    by (simp add: Let_def reportFailure_def mark_def)
next
  assume "tab (attempt_at env (pipeline_runs s)) = TabFound
       \<and> extraction (attempt_at env (pipeline_runs s)) = Inr data_opt
       \<and> \<not> valid (validateThreadData data_opt (currentPlatform env))"
  then show "\<exists>s'. syncSingleThread (Suc fuel) env thread force s = Some s'
           \<and> syncStatusMap s' (thread_uuid thread) = Some Failed
           \<and> map failure_reason (take 1 (failures s'))
               = [Some (''Validation failed: '' @
                        join '', '' (errors (validateThreadData data_opt (currentPlatform env))))]
           \<and> pipeline_runs s' = pipeline_runs s + 1"
    by (simp add: Let_def sync_attempt_def reportFailure_def mark_def)
qed

theorem retry_after_each_retryable_failure_witness:
  "syncSingleThread 3 env_429_twice thread_t1 False app0
     = syncSingleThread 2 env_429_twice thread_t1 False
         (app0\<lparr>syncStatusMap := [''t1'' \<mapsto> Syncing], pipeline_runs := 1, timers := [60000]\<rparr>)
   \<and> (\<exists>s'. syncSingleThread 1 env_401 thread_t1 False app0 = Some s'
          \<and> syncStatusMap s' ''t1'' = Some Failed
          \<and> map failure_reason (take 1 (failures s')) = [Some ''Please re-login to the platform''])"
proof -
  have r: "retry_with_delay (handleExportError True \<lparr>message = Some ''HTTP 429''\<rparr>)"
    and d: "delay (handleExportError True \<lparr>message = Some ''HTTP 429''\<rparr>) = Some 60000"
    by (simp_all add: handleExportError_def classifyError_def toLowerCase_def lower_char_def is_upper_def
          or_default_def retry_with_delay_def)
  have a: "sync_attempt (currentPlatform env_429_twice)
             (attempt_at env_429_twice (pipeline_runs app0)) thread_t1 False
             (mark (thread_uuid thread_t1) Syncing (app0\<lparr>pipeline_runs := pipeline_runs app0 + 1\<rparr>))
           = Inl (\<lparr>message = Some ''HTTP 429''\<rparr>,
                  mark (thread_uuid thread_t1) Syncing (app0\<lparr>pipeline_runs := pipeline_runs app0 + 1\<rparr>))"
    by (simp add: env_429_twice_def answers_429_def app0_def sync_attempt_def)
  have t: "tab (attempt_at env_429_twice (pipeline_runs app0)) = TabFound"
    and o: "onLine (attempt_at env_429_twice (pipeline_runs app0)) = True"
    by (simp_all add: env_429_twice_def answers_429_def app0_def)
  have first: "syncSingleThread 3 env_429_twice thread_t1 False app0
     = syncSingleThread 2 env_429_twice thread_t1 False
         (app0\<lparr>syncStatusMap := [''t1'' \<mapsto> Syncing], pipeline_runs := 1, timers := [60000]\<rparr>)"
    using retry_after_each_retryable_failure
            [of env_429_twice app0 thread_t1 False "\<lparr>message = Some ''HTTP 429''\<rparr>"
                "mark (thread_uuid thread_t1) Syncing (app0\<lparr>pipeline_runs := pipeline_runs app0 + 1\<rparr>)"
                2]
          t a r d o
    by (simp add: numeral_3_eq_3 numeral_2_eq_2 mark_def thread_t1_def app0_def)
  have r': "\<not> retry_with_delay (handleExportError True \<lparr>message = Some ''401 unauthorized''\<rparr>)"
    and m': "recovery_message (handleExportError True \<lparr>message = Some ''401 unauthorized''\<rparr>)
             = Some ''Please re-login to the platform''"
    by (simp_all add: handleExportError_def classifyError_def toLowerCase_def lower_char_def is_upper_def
          or_default_def retry_with_delay_def)
  have a': "sync_attempt (currentPlatform env_401)
             (attempt_at env_401 (pipeline_runs app0)) thread_t1 False
             (mark (thread_uuid thread_t1) Syncing (app0\<lparr>pipeline_runs := pipeline_runs app0 + 1\<rparr>))
           = Inl (\<lparr>message = Some ''401 unauthorized''\<rparr>,
                  mark (thread_uuid thread_t1) Syncing (app0\<lparr>pipeline_runs := pipeline_runs app0 + 1\<rparr>))"
    by (simp add: env_401_def answers_401_def app0_def sync_attempt_def)
  have t': "tab (attempt_at env_401 (pipeline_runs app0)) = TabFound"
    and o': "onLine (attempt_at env_401 (pipeline_runs app0)) = True"
    by (simp_all add: env_401_def answers_401_def app0_def)
  have second: "\<exists>s'. syncSingleThread 1 env_401 thread_t1 False app0 = Some s'
          \<and> syncStatusMap s' ''t1'' = Some Failed
          \<and> map failure_reason (take 1 (failures s')) = [Some ''Please re-login to the platform'']"
    using retry_after_each_retryable_failure
            [of env_401 app0 thread_t1 False "\<lparr>message = Some ''401 unauthorized''\<rparr>"
                "mark (thread_uuid thread_t1) Syncing (app0\<lparr>pipeline_runs := pipeline_runs app0 + 1\<rparr>)"
                0]
          t' a' r' m' o'
    by (simp add: or_else_def truthy_def thread_t1_def)
  from first second show ?thesis by (rule conjI)
qed

theorem retry_counterexample:
  "map_option pipeline_runs (syncSingleThread 3 env_429_twice thread_t1 False app0) = Some 3
   \<and> map_option timers (syncSingleThread 3 env_429_twice thread_t1 False app0)
       = Some [60000, 60000]"
  by (simp add: numeral_3_eq_3 env_429_twice_def answers_429_def answers_t1_def thread_t1_def
        app0_def sync_attempt_def mark_def Let_def handleExportError_def classifyError_def
        toLowerCase_def lower_char_def is_upper_def or_default_def retry_with_delay_def
        validateThreadData_def data_t1_def full_entry_def entries_of_def
        tally_entry_def hasQuestion_def hasAnswer_def hasTextBlock_def truthy_def
        hasChanged_def saveFingerprint_def)

section \<open>Properties of bulkSyncToNotion\<close>

lemma sync_attempt_status_other:
  assumes "u \<noteq> thread_uuid thread"
  shows "sync_attempt platform a thread force s = Inr s' \<Longrightarrow> syncStatusMap s' u = syncStatusMap s u"
    and "sync_attempt platform a thread force s = Inl (e, s') \<Longrightarrow> syncStatusMap s' u = syncStatusMap s u"
  using assms
  by (auto simp: sync_attempt_def Let_def mark_def reportFailure_def
           split: sum.splits option.splits if_splits)

lemma syncSingleThread_status_other:
  "syncSingleThread fuel env thread force s = Some s' \<Longrightarrow> u \<noteq> thread_uuid thread
     \<Longrightarrow> syncStatusMap s' u = syncStatusMap s u"
proof (induction fuel arbitrary: s)
  case 0
  then show ?case by simp
next
  case (Suc fuel)
  let ?a = "attempt_at env (pipeline_runs s)"
  let ?s0 = "mark (thread_uuid thread) Syncing (s\<lparr>pipeline_runs := pipeline_runs s + 1\<rparr>)"
  have s0: "syncStatusMap ?s0 u = syncStatusMap s u"
    using Suc.prems(2) by (simp add: mark_def)
  show ?case
  proof (cases "tab ?a")
    case (TabThrows e)
    with Suc.prems show ?thesis by (auto simp: Let_def mark_def reportFailure_def)
  next
    case NoTab
    with Suc.prems show ?thesis by (auto simp: Let_def mark_def reportFailure_def)
  next
    case TabFound
    show ?thesis
    proof (cases "sync_attempt (currentPlatform env) ?a thread force ?s0")
      case (Inr s1)
      with TabFound Suc.prems(1) have "s' = s1" by (simp add: Let_def)
      with sync_attempt_status_other(1) [OF Suc.prems(2) Inr] s0 show ?thesis by simp
    next
      case (Inl p)
      obtain e s1 where p: "p = (e, s1)" by (cases p)
      have s1: "syncStatusMap s1 u = syncStatusMap s u"
        using sync_attempt_status_other(2) [OF Suc.prems(2) Inl [unfolded p]] s0 by simp
      show ?thesis
      proof (cases "retry_with_delay (handleExportError (onLine ?a) e)")
        case True
        with TabFound Inl p Suc.prems(1)
        have "syncSingleThread fuel env thread force
                (s1\<lparr>timers := timers s1 @ [the (delay (handleExportError (onLine ?a) e))]\<rparr>) = Some s'"
          by (simp add: Let_def)
        from Suc.IH [OF this Suc.prems(2)] s1 show ?thesis by simp
      next
        case False
        with TabFound Inl p Suc.prems(1) s1 Suc.prems(2) show ?thesis
          by (auto simp: Let_def mark_def reportFailure_def)
      qed
    qed
  qed
qed

lemma bulk_item_status_other:
  "bulk_item fuel env jobId uuids n i thread success failed s = Some (success', failed', s')
     \<Longrightarrow> u \<noteq> thread_uuid thread \<Longrightarrow> syncStatusMap s' u = syncStatusMap s u"
  by (auto simp: bulk_item_def Let_def split: option.splits if_splits
           dest: syncSingleThread_status_other)

lemma bulk_item_counts:
  assumes "bulk_item fuel env jobId uuids n i thread success failed s = Some (success', failed', s')"
  shows "success' = (if syncStatusMap s' (thread_uuid thread) = Some Synced then success + 1 else success)"
    and "failed' = (if syncStatusMap s' (thread_uuid thread) = Some Synced then failed else failed + 1)"
  using assms by (auto simp: bulk_item_def Let_def split: option.splits if_splits)

lemma find_uuid: "find (\<lambda>t. thread_uuid t = u) threadData = Some thread \<Longrightarrow> thread_uuid thread = u"
  by (auto simp: find_Some_iff)

lemma bulk_loop_status_other:
  "bulk_loop fuel env threadData jobId uuids n i us success failed s = Some (success', failed', s')
     \<Longrightarrow> u \<notin> set us \<Longrightarrow> syncStatusMap s' u = syncStatusMap s u"
proof (induction us arbitrary: i success failed s)
  case Nil
  then show ?case by simp
next
  case (Cons v us)
  show ?case
  proof (cases "find (\<lambda>t. thread_uuid t = v) threadData")
    case None
    with Cons.prems have "bulk_loop fuel env threadData jobId uuids n (i + 1) us success failed s
                            = Some (success', failed', s')" by simp
    from Cons.IH [OF this] Cons.prems(2) show ?thesis by simp
  next
    case (Some thread)
    with Cons.prems(1) obtain success1 failed1 s1 where
      item: "bulk_item fuel env jobId uuids n i thread success failed s = Some (success1, failed1, s1)"
      and rest: "bulk_loop fuel env threadData jobId uuids n (i + 1) us success1 failed1 s1
                   = Some (success', failed', s')"
      by (auto split: option.splits)
    from find_uuid [OF Some] Cons.prems(2) have "u \<noteq> thread_uuid thread" by auto
    from bulk_item_status_other [OF item this] Cons.IH [OF rest] Cons.prems(2)
    show ?thesis by simp
  qed
qed

lemma bulk_loop_counts:
  "distinct us \<Longrightarrow>
   bulk_loop fuel env threadData jobId uuids n i us success failed s = Some (success', failed', s')
     \<Longrightarrow> success' = success + count_synced threadData s' us
         \<and> failed' = failed + count_not_synced threadData s' us"
proof (induction us arbitrary: i success failed s)
  case Nil
  then show ?case by (simp add: count_synced_def count_not_synced_def)
next
  case (Cons v us)
  from Cons.prems(1) have d: "distinct us" and v: "v \<notin> set us" by simp_all
  show ?case
  proof (cases "find (\<lambda>t. thread_uuid t = v) threadData")
    case None
    with Cons.prems have "bulk_loop fuel env threadData jobId uuids n (i + 1) us success failed s
                            = Some (success', failed', s')" by simp
    from Cons.IH [OF d this] None show ?thesis
      by (simp add: count_synced_def count_not_synced_def processed_def)
  next
    case (Some thread)
    with Cons.prems(2) obtain success1 failed1 s1 where
      item: "bulk_item fuel env jobId uuids n i thread success failed s = Some (success1, failed1, s1)"
      and rest: "bulk_loop fuel env threadData jobId uuids n (i + 1) us success1 failed1 s1
                   = Some (success', failed', s')"
      by (auto split: option.splits)
    have u: "thread_uuid thread = v" by (rule find_uuid [OF Some])
    have same: "syncStatusMap s' v = syncStatusMap s1 v"
      by (rule bulk_loop_status_other [OF rest v])
    from bulk_item_counts [OF item] u same
    have c: "success1 = (if syncStatusMap s' v = Some Synced then success + 1 else success)"
      "failed1 = (if syncStatusMap s' v = Some Synced then failed else failed + 1)"
      by simp_all
    from Cons.IH [OF d rest] c Some show ?thesis
      by (simp add: count_synced_def count_not_synced_def processed_def)
  qed
qed

lemma map_of_storage_set: "map_of (storage_set k v st) k = Some v"
  by (induction st) auto

text \<open>
  Claim C10. For an item whose sync returns, the loop body adds one to \<open>success\<close> when
  the item's status is Synced and one to \<open>failed\<close> for any other status, and the
  checkpoint written at every fifth index stores these counts; an item left Skipped
  adds one to \<open>failed\<close>. For a job on distinct ids, the counts reported at the end are
  the number of processed ids whose final status is Synced and the number of processed
  ids with any other final status.
\<close>

theorem bulk_counts_skipped_as_failed:
  "(syncSingleThread fuel env thread False s = Some s1 \<longrightarrow>
      (\<exists>s2. bulk_item fuel env jobId uuids n_total i thread success failed s
               = Some (if syncStatusMap s1 (thread_uuid thread) = Some Synced
                       then success + 1 else success,
                       if syncStatusMap s1 (thread_uuid thread) = Some Synced
                       then failed else failed + 1,
                       s2)
           \<and> (i mod 5 = 0 \<longrightarrow>
                map_of (store s2) (''export_progress_'' @ jobId)
                = Some (Progress
                    \<lparr>current = i, total = n_total,
                     job_success = (if syncStatusMap s1 (thread_uuid thread) = Some Synced
                                    then success + 1 else success),
                     job_failed = (if syncStatusMap s1 (thread_uuid thread) = Some Synced
                                   then failed else failed + 1),
                     job_uuids = uuids,
                     lastUpdate = date_now env (pipeline_runs s1)\<rparr>))))
   \<and> (syncSingleThread fuel env thread False s = Some s1
        \<and> syncStatusMap s1 (thread_uuid thread) = Some Skipped \<longrightarrow>
        map_option (\<lambda>r. (fst r, fst (snd r)))
          (bulk_item fuel env jobId uuids n_total i thread success failed s)
        = Some (success, failed + 1))
   \<and> (distinct selectedThreads \<and> selectedThreads \<noteq> []
        \<and> bulkSyncToNotion fuel env threadData selectedThreads s = Some s' \<longrightarrow>
        last (export_jobs s')
        = (length selectedThreads, count_synced threadData s' selectedThreads,
           count_not_synced threadData s' selectedThreads))"
proof (intro conjI impI)
  assume "syncSingleThread fuel env thread False s = Some s1"
  then show "\<exists>s2. bulk_item fuel env jobId uuids n_total i thread success failed s
               = Some (if syncStatusMap s1 (thread_uuid thread) = Some Synced
                       then success + 1 else success,
                       if syncStatusMap s1 (thread_uuid thread) = Some Synced
                       then failed else failed + 1,
                       s2)
           \<and> (i mod 5 = 0 \<longrightarrow>
                map_of (store s2) (''export_progress_'' @ jobId)
                = Some (Progress
                    \<lparr>current = i, total = n_total,
                     job_success = (if syncStatusMap s1 (thread_uuid thread) = Some Synced
                                    then success + 1 else success),
                     job_failed = (if syncStatusMap s1 (thread_uuid thread) = Some Synced
                                   then failed else failed + 1),
                     job_uuids = uuids,
                     lastUpdate = date_now env (pipeline_runs s1)\<rparr>))"
    by (simp add: bulk_item_def Let_def saveProgress_def map_of_storage_set)
next
  assume "syncSingleThread fuel env thread False s = Some s1
        \<and> syncStatusMap s1 (thread_uuid thread) = Some Skipped"
  then show "map_option (\<lambda>r. (fst r, fst (snd r)))
          (bulk_item fuel env jobId uuids n_total i thread success failed s)
        = Some (success, failed + 1)"
    by (simp add: bulk_item_def Let_def)
next
  assume h: "distinct selectedThreads \<and> selectedThreads \<noteq> []
        \<and> bulkSyncToNotion fuel env threadData selectedThreads s = Some s'"
  let ?jobId = "''job_'' @ int_to_radix 10 (date_now env (pipeline_runs s))"
  from h obtain success1 failed1 s1 where
    loop: "bulk_loop fuel env threadData ?jobId selectedThreads (length selectedThreads) 0
             selectedThreads 0 0 s = Some (success1, failed1, s1)"
    and s': "s' = s1\<lparr>store := clearProgress ?jobId (store s1),
                    export_jobs := export_jobs s1 @ [(length selectedThreads, success1, failed1)]\<rparr>"
    by (auto simp: bulkSyncToNotion_def Let_def split: option.splits)
  from h have "distinct selectedThreads" by simp
  from bulk_loop_counts [OF this loop]
  have "success1 = count_synced threadData s1 selectedThreads"
    and "failed1 = count_not_synced threadData s1 selectedThreads" by simp_all
  with s' show "last (export_jobs s')
        = (length selectedThreads, count_synced threadData s' selectedThreads,
           count_not_synced threadData s' selectedThreads)"
    by (simp add: count_synced_def count_not_synced_def)
qed

theorem bulk_counts_skipped_as_failed_witness:
  "syncSingleThread 1 env_t1 thread_t1 False app_t1_synced
     = Some (app_t1_synced\<lparr>syncStatusMap := [''t1'' \<mapsto> Skipped], pipeline_runs := 2\<rparr>)
   \<and> map_option (\<lambda>r. (fst r, fst (snd r)))
         (bulk_item 1 env_t1 ''job_1'' [''t1''] 1 0 thread_t1 0 0 app_t1_synced)
       = Some (0, 1)
   \<and> map_option export_jobs (bulkSyncToNotion 1 env_t1 [thread_t1] [''t1''] app_t1_synced)
       = Some [(1, 0, 1)]"
proof -
  have v: "valid (validateThreadData (Some data_t1) ''ChatGPT'')"
    by (simp add: validateThreadData_def data_t1_def full_entry_def entries_of_def Let_def
          tally_entry_def hasQuestion_def hasAnswer_def hasTextBlock_def truthy_def)
  have fp: "generateFingerprint data_t1 \<noteq> []"
    by (rule generateFingerprint_nonempty)
  have run: "syncSingleThread 1 env_t1 thread_t1 False app_t1_synced
     = Some (app_t1_synced\<lparr>syncStatusMap := [''t1'' \<mapsto> Skipped], pipeline_runs := 2\<rparr>)"
    using v fp
    by (simp add: env_t1_def answers_t1_def thread_t1_def app_t1_synced_def app0_def
          sync_attempt_def mark_def hasChanged_def Let_def)
  have item: "map_option (\<lambda>r. (fst r, fst (snd r)))
         (bulk_item 1 env_t1 ''job_1'' [''t1''] 1 0 thread_t1 0 0 app_t1_synced)
       = Some (0, 1)"
    using bulk_counts_skipped_as_failed [of 1 env_t1 thread_t1 app_t1_synced
        "app_t1_synced\<lparr>syncStatusMap := [''t1'' \<mapsto> Skipped], pipeline_runs := 2\<rparr>"
        "''job_1''" "[''t1'']" 1 0 0 0] run
    by (simp add: thread_t1_def)
  have "map_option export_jobs (bulkSyncToNotion 1 env_t1 [thread_t1] [''t1''] app_t1_synced)
       = Some [(1, 0, 1)]"
    using run
    by (simp add: bulkSyncToNotion_def bulk_item_def Let_def thread_t1_def app_t1_synced_def app0_def)
  with run item show ?thesis by simp
qed

section \<open>Properties of splitTextIntoChunks\<close>

lemma lastIndexOf_down_le: "lastIndexOf_down s pat k \<le> int k"
  by (induction k) auto

lemma lastIndexOf_le: "lastIndexOf s pat position \<le> int position"
  using lastIndexOf_down_le [of s pat "min position (length s - length pat)"]
  by (auto simp: lastIndexOf_def)

lemma breakPoint_bounds: "0 \<le> breakPoint remaining maxLength \<and> breakPoint remaining maxLength \<le> int maxLength"
  using lastIndexOf_le [of remaining "[CHR 0x0A]" maxLength]
        lastIndexOf_le [of remaining "''. ''" maxLength]
        lastIndexOf_le [of remaining "'' ''" maxLength]
  by (auto simp: breakPoint_def Let_def)

lemma length_trim_le: "length (trim s) \<le> length s"
proof -
  have "length (dropWhile P xs) \<le> length xs" for P and xs :: string
    by (induction xs) auto
  from this [of is_space "rev (dropWhile is_space s)"] this [of is_space s]
  show ?thesis by (simp add: trim_def)
qed

lemma filter_dropWhile_not: "filter (\<lambda>x. \<not> P x) (dropWhile P xs) = filter (\<lambda>x. \<not> P x) xs"
  by (induction xs) auto

lemma filter_trim: "filter (\<lambda>c. \<not> is_space c) (trim s) = filter (\<lambda>c. \<not> is_space c) s"
  by (simp add: trim_def filter_dropWhile_not flip: rev_filter)

lemma chunks_length_bound:
  "\<forall>c\<in>set chunks. length c \<le> maxLength + 1 \<Longrightarrow>
   \<forall>c\<in>set (splitTextIntoChunks_loop remaining maxLength chunks). length c \<le> maxLength + 1"
proof (induction remaining maxLength chunks rule: splitTextIntoChunks_loop.induct)
  case (1 remaining maxLength chunks)
  show ?case
  proof (cases "0 < length remaining \<and> \<not> length remaining \<le> maxLength")
    case False
    with "1.prems" show ?thesis
      by (subst splitTextIntoChunks_loop.simps) auto
  next
    case True
    let ?n = "nat (breakPoint remaining maxLength + 1)"
    have "length (trim (take ?n remaining)) \<le> length (take ?n remaining)"
      by (rule length_trim_le)
    also have "\<dots> \<le> maxLength + 1"
      using breakPoint_bounds [of remaining maxLength] by (simp add: min_def) linarith
    finally have "\<forall>c\<in>set (chunks @ [trim (take ?n remaining)]). length c \<le> maxLength + 1"
      using "1.prems" by auto
    from "1.IH" [OF _ _ this] True show ?thesis
      by (subst splitTextIntoChunks_loop.simps) simp
  qed
qed

lemma chunks_content:
  "filter (\<lambda>c. \<not> is_space c) (concat (splitTextIntoChunks_loop remaining maxLength chunks))
   = filter (\<lambda>c. \<not> is_space c) (concat chunks @ remaining)"
proof (induction remaining maxLength chunks rule: splitTextIntoChunks_loop.induct)
  case (1 remaining maxLength chunks)
  show ?case
  proof (cases "0 < length remaining \<and> \<not> length remaining \<le> maxLength")
    case False
    then show ?thesis
      by (subst splitTextIntoChunks_loop.simps) auto
  next
    case True
    let ?n = "nat (breakPoint remaining maxLength + 1)"
    have "filter (\<lambda>c. \<not> is_space c) (take ?n remaining) @ filter (\<lambda>c. \<not> is_space c) (drop ?n remaining)
          = filter (\<lambda>c. \<not> is_space c) remaining"
      by (simp flip: filter_append)
    with "1.IH" True show ?thesis
      by (subst splitTextIntoChunks_loop.simps) (simp add: filter_trim)
  qed
qed

text \<open>
  What holds for every text and every limit: a chunk has at most \<open>maxLength + 1\<close>
  characters, and the chunks, put together, are the text up to white space.
\<close>

lemma splitTextIntoChunks_properties:
  "(\<forall>c\<in>set (splitTextIntoChunks text_in maxLength). length c \<le> maxLength + 1)
   \<and> filter (\<lambda>c. \<not> is_space c) (concat (splitTextIntoChunks text_in maxLength))
       = filter (\<lambda>c. \<not> is_space c) text_in"
  using chunks_length_bound [of "[]" maxLength text_in] chunks_content [of text_in maxLength "[]"]
  by (simp add: splitTextIntoChunks_def)

text \<open>
  The bound \<open>maxLength + 1\<close> is reached: a text without white space that is longer than
  \<open>maxLength\<close> has a first chunk of \<open>maxLength + 1\<close> characters, as 1905 letters have
  with the limit of 1900 that \<open>syncToNotion\<close> passes.
\<close>

lemma startsWith_set: "startsWith s p \<Longrightarrow> set p \<subseteq> set s"
  using startsWith_append_drop [of s p] by (metis set_append Un_upper1)

lemma lastIndexOf_down_absent:
  "c \<in> set pat \<Longrightarrow> c \<notin> set s \<Longrightarrow> lastIndexOf_down s pat k = - 1"
proof (induction k)
  case 0
  then show ?case using startsWith_set [of s pat] by auto
next
  case (Suc k)
  have "\<not> startsWith (drop (Suc k) s) pat"
  proof
    assume "startsWith (drop (Suc k) s) pat"
    then have "set pat \<subseteq> set (drop (Suc k) s)" by (rule startsWith_set)
    with Suc.prems show False using set_drop_subset [of "Suc k" s] by blast
  qed
  with Suc show ?case by simp
qed

lemma lastIndexOf_absent:
  "c \<in> set pat \<Longrightarrow> c \<notin> set s \<Longrightarrow> lastIndexOf s pat position = - 1"
  by (simp add: lastIndexOf_def lastIndexOf_down_absent)

lemma breakPoint_without_spaces:
  assumes "\<forall>c\<in>set remaining. \<not> is_space c"
  shows "breakPoint remaining maxLength = int maxLength"
proof -
  have nl: "CHR 0x0A \<notin> set remaining" and sp: "CHR '' '' \<notin> set remaining"
    using assms by (auto simp: is_space_def)
  have "lastIndexOf remaining [CHR 0x0A] maxLength = - 1"
    by (rule lastIndexOf_absent [of "CHR 0x0A"]) (simp_all add: nl)
  moreover have "lastIndexOf remaining ''. '' maxLength = - 1"
    by (rule lastIndexOf_absent [of "CHR '' ''"]) (simp_all add: sp)
  moreover have "lastIndexOf remaining '' '' maxLength = - 1"
    by (rule lastIndexOf_absent [of "CHR '' ''"]) (simp_all add: sp)
  ultimately show ?thesis by (simp add: breakPoint_def)
qed

lemma trim_without_spaces: "\<forall>c\<in>set s. \<not> is_space c \<Longrightarrow> trim s = s"
proof -
  assume a: "\<forall>c\<in>set s. \<not> is_space c"
  have "dropWhile is_space xs = xs" if "\<forall>c\<in>set xs. \<not> is_space c" for xs
    using that by (cases xs) auto
  from this [of s] this [of "rev s"] a show ?thesis by (simp add: trim_def)
qed

lemma splitTextIntoChunks_loop_prefix:
  "\<exists>more. splitTextIntoChunks_loop remaining maxLength chunks = chunks @ more"
proof (induction remaining maxLength chunks rule: splitTextIntoChunks_loop.induct)
  case (1 remaining maxLength chunks)
  show ?case
  proof (cases "0 < length remaining \<and> \<not> length remaining \<le> maxLength")
    case False
    then show ?thesis by (subst splitTextIntoChunks_loop.simps) auto
  next
    case True
    with "1.IH" obtain more where
      "splitTextIntoChunks_loop (drop (nat (breakPoint remaining maxLength + 1)) remaining) maxLength
         (chunks @ [trim (take (nat (breakPoint remaining maxLength + 1)) remaining)])
       = (chunks @ [trim (take (nat (breakPoint remaining maxLength + 1)) remaining)]) @ more"
      by auto
    with True show ?thesis by (subst splitTextIntoChunks_loop.simps) simp
  qed
qed

lemma first_chunk_without_spaces:
  assumes "maxLength < length text_in" and "\<forall>c\<in>set text_in. \<not> is_space c"
  shows "hd (splitTextIntoChunks text_in maxLength) = take (maxLength + 1) text_in"
    and "length (hd (splitTextIntoChunks text_in maxLength)) = maxLength + 1"
proof -
  have bp: "breakPoint text_in maxLength = int maxLength"
    by (rule breakPoint_without_spaces [OF assms(2)])
  have "\<forall>c\<in>set (take (maxLength + 1) text_in). \<not> is_space c"
    using assms(2) by (meson in_set_takeD)
  then have tr: "trim (take (maxLength + 1) text_in) = take (maxLength + 1) text_in"
    by (rule trim_without_spaces)
  obtain more where
    "splitTextIntoChunks_loop (drop (maxLength + 1) text_in) maxLength [take (maxLength + 1) text_in]
       = [take (maxLength + 1) text_in] @ more"
    using splitTextIntoChunks_loop_prefix by blast
  moreover have "text_in \<noteq> []" using assms(1) by auto
  ultimately have "splitTextIntoChunks text_in maxLength = take (maxLength + 1) text_in # more"
    using assms(1) bp tr unfolding splitTextIntoChunks_def
    by (subst splitTextIntoChunks_loop.simps) (simp add: nat_add_distrib)
  then show "hd (splitTextIntoChunks text_in maxLength) = take (maxLength + 1) text_in"
    by simp
  with assms(1) show "length (hd (splitTextIntoChunks text_in maxLength)) = maxLength + 1"
    by simp
qed

lemma splitTextIntoChunks_default_limit:
  "length (hd (splitTextIntoChunks (replicate 1905 CHR ''a'') 1900)) = 1901"
  using first_chunk_without_spaces(2) [of 1900 "replicate 1905 CHR ''a''"]
  by (simp add: is_space_def)

text \<open>
  Claim C3. The bound of the claim, at most \<open>maxLength\<close> characters in a chunk, is missed
  by one: the search for a break point starts at index \<open>maxLength\<close>, and the chunk is cut
  after the break point. On eight letters and a limit of 4 the first chunk has 5
  characters.
\<close>

theorem splitTextIntoChunks_exceeds_limit:
  "splitTextIntoChunks ''abcdefgh'' 4 = [''abcde'', ''fgh'']
   \<and> length (hd (splitTextIntoChunks ''abcdefgh'' 4)) = 5"
  by code_simp

end
